theory Spec2Isabelle
  imports Complex_Main
begin

section \<open>The Interpolator of wavefile (lib/resampler/interpolator.js)\<close>

text \<open>
  A shallow embedding of the class \<^verbatim>\<open>Interpolator\<close> and of the module-level functions
  it uses. A trailing underscore of the source (its mark for private members) is written
  as a prime, since no Isabelle name may end with an underscore: \<^verbatim>\<open>clipClamp_\<close> is
  \<open>clipClamp'\<close>, \<^verbatim>\<open>this.length_\<close> is \<open>length'\<close>. The method \<^verbatim>\<open>linear\<close> is
  \<open>linear_method\<close>, since \<open>linear\<close> is a constant of the library.
\<close>

subsection \<open>Numbers\<close>

text \<open>
  A JavaScript number is an IEEE double. The model follows the two values of the source
  that are not finite numbers and can arise below from finite inputs: \<^verbatim>\<open>NaN\<close>, and
  \<^verbatim>\<open>undefined\<close> read from an array, which every arithmetic operator turns into
  \<^verbatim>\<open>NaN\<close>. A \<open>number\<close> is \<open>Some r\<close> for the finite value \<open>r\<close> and \<open>None\<close> for
  \<^verbatim>\<open>NaN\<close> or \<^verbatim>\<open>undefined\<close>. Sample indices and lengths are integers. Infinities are
  not modelled: the one place where the source can produce one from finite inputs and
  keep it is the scale factor when \<^verbatim>\<open>scaleTo\<close> is 0, and the theorems on constructed
  interpolators are stated for \<open>1 \<le> scaleTo\<close>.

  The methods \<^verbatim>\<open>point\<close> and \<^verbatim>\<open>linear\<close> are modelled in double arithmetic, every
  operation rounded (\<open>double\<close> below): which sample they read depends on the rounding.
  The methods \<^verbatim>\<open>cubic\<close> and \<^verbatim>\<open>sinc\<close>, the kernels and the windows are modelled
  in exact reals: the statements about them are the formulas that they evaluate.
\<close>

type_synonym number = "real option"

text \<open>
  The binary operators \<^verbatim>\<open>+\<close>, \<^verbatim>\<open>-\<close>, \<^verbatim>\<open>*\<close> in exact arithmetic: \<^verbatim>\<open>NaN\<close> if an
  operand is.
\<close>

fun arith :: "(real \<Rightarrow> real \<Rightarrow> real) \<Rightarrow> number \<Rightarrow> number \<Rightarrow> number" where
  "arith f (Some x) (Some y) = Some (f x y)"
| "arith f _ _ = None"

definition nadd :: "number \<Rightarrow> number \<Rightarrow> number" where
  "nadd = arith (\<lambda>x y. x + y)"

definition nsub :: "number \<Rightarrow> number \<Rightarrow> number" where
  "nsub = arith (\<lambda>x y. x - y)"

definition nmul :: "number \<Rightarrow> number \<Rightarrow> number" where
  "nmul = arith (\<lambda>x y. x * y)"

text \<open>\<^verbatim>\<open>x / 2\<close>, the only division of a possibly undefined value in the source.\<close>

definition half :: "number \<Rightarrow> number" where
  "half x = arith (\<lambda>x y. x / y) x (Some 2)"

text \<open>
  \<^verbatim>\<open>t % n\<close> on integers: \<^verbatim>\<open>NaN\<close> for \<^verbatim>\<open>n = 0\<close>, otherwise the remainder of the
  division truncated towards zero, which has the sign of \<^verbatim>\<open>t\<close>. (The source's \<^verbatim>\<open>-0\<close>
  is the integer 0: it compares and indexes as 0.)
\<close>

definition remainder :: "int \<Rightarrow> int \<Rightarrow> int option" where
  "remainder t n = (if n = 0 then None else Some (sgn t * (\<bar>t\<bar> mod \<bar>n\<bar>)))"

text \<open>\<^verbatim>\<open>Math.round\<close> rounds to the nearest integer, a tie towards \<open>+\<infinity>\<close>.\<close>

definition Math_round :: "real \<Rightarrow> int" where
  "Math_round x = \<lfloor>x + 1 / 2\<rfloor>"

definition Math_floor :: "real \<Rightarrow> int" where
  "Math_floor x = \<lfloor>x\<rfloor>"

text \<open>
  Rounding to a double: to the nearest multiple of the unit in the last place, a tie to
  the even multiple. The unit of \<open>x\<close> is \<open>2 powr (e - 52)\<close> for the exponent \<open>e\<close>, the floor
  of \<open>log 2 \<bar>x\<bar>\<close>, and at least \<open>- 1022\<close>: below \<open>2 powr (- 1022)\<close> the doubles are
  subnormal, with the unit \<open>2 powr (- 1074)\<close>. Magnitudes from \<open>2 ^ 1024\<close> on, which the
  source rounds to an infinity, are outside the model.
\<close>

definition round_even :: "real \<Rightarrow> int" where
  "round_even y =
     (let f = \<lfloor>y\<rfloor>; r = y - of_int f
      in if r < 1 / 2 then f else if r > 1 / 2 then f + 1 else if even f then f else f + 1)"

definition double :: "real \<Rightarrow> real" where
  "double x =
     (if x = 0 then 0
      else let e = max \<lfloor>log 2 \<bar>x\<bar>\<rfloor> (- 1022);
               q = 2 powr of_int (e - 52)
           in of_int (round_even (x / q)) * q)"

text \<open>The operators \<^verbatim>\<open>+\<close> and \<^verbatim>\<open>*\<close> in double arithmetic.\<close>

definition dadd :: "number \<Rightarrow> number \<Rightarrow> number" where
  "dadd = arith (\<lambda>x y. double (x + y))"

definition dmul :: "number \<Rightarrow> number \<Rightarrow> number" where
  "dmul = arith (\<lambda>x y. double (x * y))"

text \<open>\<^verbatim>\<open>x || d\<close> on an optional numeric field: \<open>d\<close> when \<open>x\<close> is absent or 0.\<close>

definition or_default :: "'a::zero option \<Rightarrow> 'a \<Rightarrow> 'a" where
  "or_default x d = (case x of None \<Rightarrow> d | Some v \<Rightarrow> if v = 0 then d else v)"

text \<open>
  \<^verbatim>\<open>samples[i]\<close>: the element, or \<^verbatim>\<open>undefined\<close> when \<open>i\<close> is \<^verbatim>\<open>NaN\<close> or no index
  of the array.
\<close>

definition element :: "real list \<Rightarrow> int option \<Rightarrow> number" where
  "element samples i =
     (case i of
        None \<Rightarrow> None
      | Some j \<Rightarrow> if 0 \<le> j \<and> j < int (length samples) then Some (samples ! nat j) else None)"

subsection \<open>Clip functions\<close>

definition clipClamp' :: "int \<Rightarrow> int \<Rightarrow> int option" where
  "clipClamp' t n = Some (max 0 (min t (n - 1)))"

definition clipPeriodic' :: "int \<Rightarrow> int \<Rightarrow> int option" where
  "clipPeriodic' t n =
     (case remainder t n of
        None \<Rightarrow> None
      | Some t \<Rightarrow> Some (if t < 0 then t + n else t))"

text \<open>Both comparisons of the source are false on \<^verbatim>\<open>NaN\<close>, which is returned as it is.\<close>

definition clipMirror' :: "int \<Rightarrow> int \<Rightarrow> int option" where
  "clipMirror' t n =
     (let period = 2 * (n - 1) in
      case clipPeriodic' t period of
        None \<Rightarrow> None
      | Some t \<Rightarrow> Some (if t > n - 1 then period - t else t))"

subsection \<open>Sinc functions\<close>

definition gaussianWindow' :: "real \<Rightarrow> number" where
  "gaussianWindow' x = Some (exp (- x * x))"

definition sinc' :: "real \<Rightarrow> real" where
  "sinc' x = (if x = 0 then 1 else sin (pi * x) / (pi * x))"

definition sincKernel' :: "(real \<Rightarrow> number) \<Rightarrow> real \<Rightarrow> number" where
  "sincKernel' window x = nmul (Some (sinc' x)) (window x)"

text \<open>
  The size \<open>sz\<close> is the field \<^verbatim>\<open>details.lanczosFilterSize\<close>, which may be absent. For an
  absent size \<^verbatim>\<open>x / size\<close> is \<^verbatim>\<open>NaN\<close>; for the size 0 it is an infinity or \<^verbatim>\<open>NaN\<close>,
  none of which is \<^verbatim>\<open>=== 0\<close>, and \<^verbatim>\<open>Math.sin\<close> of each is \<^verbatim>\<open>NaN\<close>: the window is
  \<^verbatim>\<open>NaN\<close> everywhere.
\<close>

definition lanczosWindow' :: "int option \<Rightarrow> real \<Rightarrow> number" where
  "lanczosWindow' sz x =
     (case sz of
        None \<Rightarrow> None
      | Some s \<Rightarrow> if s = 0 then None else Some (sinc' (x / of_int s)))"

subsection \<open>The class Interpolator\<close>

text \<open>
  The object \<^verbatim>\<open>details\<close>; an absent field is \<open>None\<close>. The field \<^verbatim>\<open>method\<close> is
  \<open>method_name\<close>.
\<close>

record details =
  method_name :: "string option"
  clip :: "string option"
  tension :: "real option"
  sincFilterSize :: "int option"
  sincWindow :: "(real \<Rightarrow> number) option"
  lanczosFilterSize :: "int option"

text \<open>The method that \<^verbatim>\<open>this.interpolate\<close> refers to.\<close>

datatype method_ref = Point | Linear | Cubic | Sinc

text \<open>
  The fields of an instance. The last one is the property \<^verbatim>\<open>this.sincFilterSize\<close>,
  without underscore, that the constructor sets for \<^verbatim>\<open>'lanczos'\<close>; it is \<open>None\<close>
  (\<^verbatim>\<open>undefined\<close>) when it was never set.
\<close>

record interpolator =
  length' :: int
  scaleFactor' :: real
  interpolate :: method_ref
  clip' :: "int \<Rightarrow> int \<Rightarrow> int option"
  tangentFactor' :: real
  sincFilterSize' :: int
  kernel' :: "real \<Rightarrow> number"
  this_sincFilterSize :: "int option"

text \<open>
  The constructor, for an object \<open>details\<close>. The assignments are in the order of the
  source; a field assigned twice is bound twice.
\<close>

definition Interpolator :: "int \<Rightarrow> int \<Rightarrow> details \<Rightarrow> interpolator" where
  "Interpolator scaleFrom scaleTo details =
     (let length_0 = scaleFrom;
          scaleFactor_0 = of_int (scaleFrom - 1) / of_int scaleTo;
          interpolate_0 =
            (if method_name details = Some ''point'' then Point
             else if method_name details = Some ''linear'' then Linear
             else if method_name details = Some ''cubic'' then Cubic
             else Sinc);
          (scaleFactor_1, clip_0) =
            (if clip details = Some ''periodic''
             then (of_int scaleFrom / of_int scaleTo, clipPeriodic')
             else if clip details = Some ''mirror'' then (scaleFactor_0, clipMirror')
             else (scaleFactor_0, clipClamp'));
          tangentFactor_0 = 1 - max 0 (min 1 (or_default (tension details) 0));
          sincFilterSize_0 = or_default (sincFilterSize details) 1;
          kernel_0 =
            sincKernel' (case sincWindow details of None \<Rightarrow> gaussianWindow' | Some w \<Rightarrow> w);
          (kernel_1, sincFilterSize_public) =
            (if method_name details = Some ''lanczos''
             then (sincKernel' (lanczosWindow' (lanczosFilterSize details)),
                   lanczosFilterSize details)
             else (kernel_0, None))
      in \<lparr>length' = length_0, scaleFactor' = scaleFactor_1, interpolate = interpolate_0,
          clip' = clip_0, tangentFactor' = tangentFactor_0,
          sincFilterSize' = sincFilterSize_0, kernel' = kernel_1,
          this_sincFilterSize = sincFilterSize_public\<rparr>)"

text \<open>
  \<^verbatim>\<open>new Interpolator(scaleFrom, scaleTo, details)\<close>: the parameter is documented as
  nullable, and reading \<^verbatim>\<open>details.method\<close> of \<^verbatim>\<open>null\<close> throws a TypeError.
\<close>

datatype error = TypeError

definition new_Interpolator :: "int \<Rightarrow> int \<Rightarrow> details option \<Rightarrow> error + interpolator" where
  "new_Interpolator scaleFrom scaleTo details =
     (case details of
        None \<Rightarrow> Inl TypeError
      | Some d \<Rightarrow> Inr (Interpolator scaleFrom scaleTo d))"

definition getClippedInput' :: "interpolator \<Rightarrow> int \<Rightarrow> real list \<Rightarrow> number" where
  "getClippedInput' this t samples =
     (if 0 \<le> t \<and> t < length' this then element samples (Some t)
      else element samples (clip' this t (length' this)))"

definition getTangent' :: "interpolator \<Rightarrow> int \<Rightarrow> real list \<Rightarrow> number" where
  "getTangent' this k samples =
     half (nmul (Some (tangentFactor' this))
             (nsub (getClippedInput' this (k + 1) samples)
                   (getClippedInput' this (k - 1) samples)))"

text \<open>
  The field \<open>scaleFactor'\<close> is the quotient of the constructor as a real; the double that
  the source stores in \<^verbatim>\<open>this.scaleFactor_\<close> is \<open>double (scaleFactor' this)\<close> (the
  lengths are integers below \<open>2\<^sup>5\<^sup>3\<close>, so the operands of the division are exact).
  \<^verbatim>\<open>Math.round\<close> and \<^verbatim>\<open>Math.floor\<close> are exact on doubles.
\<close>

definition point :: "interpolator \<Rightarrow> real \<Rightarrow> real list \<Rightarrow> number" where
  "point this t samples =
     getClippedInput' this (Math_round (double (double (scaleFactor' this) * t))) samples"

definition linear_method :: "interpolator \<Rightarrow> real \<Rightarrow> real list \<Rightarrow> number" where
  "linear_method this t samples =
     (let t = double (double (scaleFactor' this) * t);
          k = Math_floor t;
          t = double (t - of_int k)
      in dadd (dmul (Some (double (1 - t))) (getClippedInput' this k samples))
              (dmul (Some t) (getClippedInput' this (k + 1) samples)))"

definition cubic :: "interpolator \<Rightarrow> real \<Rightarrow> real list \<Rightarrow> number" where
  "cubic this t samples =
     (let t = scaleFactor' this * t;
          k = Math_floor t;
          m0 = getTangent' this k samples;
          m1 = getTangent' this (k + 1) samples;
          p0 = getClippedInput' this k samples;
          p1 = getClippedInput' this (k + 1) samples;
          t = t - of_int k;
          t2 = t * t;
          t3 = t * t2
      in nadd (nadd (nadd (nmul (Some (2 * t3 - 3 * t2 + 1)) p0)
                          (nmul (Some (t3 - 2 * t2 + t)) m0))
                    (nmul (Some (- 2 * t3 + 3 * t2)) p1))
              (nmul (Some (t3 - t2)) m1))"

text \<open>
  The loop of \<^verbatim>\<open>sinc\<close>, from the counter \<open>j\<close> on. The source's \<^verbatim>\<open>n\<close> and \<^verbatim>\<open>j\<close>
  hold the same value in every iteration (both start at \<^verbatim>\<open>ref\<close>, and the update
  assigns the new \<^verbatim>\<open>j\<close> to \<^verbatim>\<open>n\<close>), so the model keeps \<open>j\<close> only. The loop counts
  upwards when \<open>ref \<le> ref1\<close> and downwards otherwise; \<open>acc\<close> is the source's
  \<^verbatim>\<open>sum\<close>.
\<close>

function sinc_loop ::
  "interpolator \<Rightarrow> real \<Rightarrow> real list \<Rightarrow> int \<Rightarrow> int \<Rightarrow> int \<Rightarrow> number \<Rightarrow> number" where
  "sinc_loop this t samples ref ref1 j acc =
     (if (if ref \<le> ref1 then j \<le> ref1 else j \<ge> ref1)
      then sinc_loop this t samples ref ref1 (if ref \<le> ref1 then j + 1 else j - 1)
             (nadd acc (nmul (kernel' this (t - of_int j)) (getClippedInput' this j samples)))
      else acc)"
  by pat_completeness auto
termination
  by (relation "measure (\<lambda>(this, t, samples, ref, ref1, j, acc).
        if ref \<le> ref1 then nat (ref1 + 1 - j) else nat (j + 1 - ref1))") auto

declare sinc_loop.simps [simp del]

definition sinc :: "interpolator \<Rightarrow> real \<Rightarrow> real list \<Rightarrow> number" where
  "sinc this t samples =
     (let t = scaleFactor' this * t;
          k = Math_floor t;
          ref = k - sincFilterSize' this + 1;
          ref1 = k + sincFilterSize' this
      in sinc_loop this t samples ref ref1 ref (Some 0))"

text \<open>The call \<^verbatim>\<open>this.interpolate(t, samples)\<close>.\<close>

definition call_interpolate :: "interpolator \<Rightarrow> real \<Rightarrow> real list \<Rightarrow> number" where
  "call_interpolate this t samples =
     (case interpolate this of
        Point \<Rightarrow> point this t samples
      | Linear \<Rightarrow> linear_method this t samples
      | Cubic \<Rightarrow> cubic this t samples
      | Sinc \<Rightarrow> sinc this t samples)"

subsection \<open>The specification's sum, and inputs for the examples\<close>

text \<open>
  The sum that the specification gives for the sinc method, in its words: with \<open>k\<close> the
  floor of \<open>u\<close>, the sum of \<open>kernel (u - n) * fetch n\<close> over every integer \<open>n\<close> from
  \<open>k - filterSize + 1\<close> to \<open>k + filterSize\<close>, both included. It is \<^verbatim>\<open>NaN\<close> when a
  product is.
\<close>

definition windowed_sinc_sum ::
  "(real \<Rightarrow> number) \<Rightarrow> (int \<Rightarrow> number) \<Rightarrow> real \<Rightarrow> int \<Rightarrow> number" where
  "windowed_sinc_sum kern fetch u filterSize =
     (let k = \<lfloor>u\<rfloor>;
          ns = {k - filterSize + 1 .. k + filterSize};
          product = (\<lambda>n. nmul (kern (u - of_int n)) (fetch n))
      in if \<forall>n\<in>ns. product n \<noteq> None then Some (\<Sum>n\<in>ns. the (product n)) else None)"

text \<open>The object \<^verbatim>\<open>{}\<close>.\<close>

definition no_details :: details where
  "no_details = \<lparr>method_name = None, clip = None, tension = None, sincFilterSize = None,
     sincWindow = None, lanczosFilterSize = None\<rparr>"

section \<open>Properties\<close>

subsection \<open>The clip functions\<close>

lemma remainder_values:
  "remainder (- 1) 5 = Some (- 1)" "remainder 5 5 = Some 0" "remainder 7 5 = Some 2"
  "remainder (- 1) 8 = Some (- 1)" "remainder 8 8 = Some 0" "remainder 5 8 = Some 5"
  by (simp_all add: remainder_def)

text \<open>
  Claim C4. The clip functions give the example values of the specification:
  clamp(-1,5) = 0, clamp(5,5) = 4, clamp(2,5) = 2; periodic(-1,5) = 4, periodic(5,5) = 0,
  periodic(7,5) = 2; mirror(-1,5) = 1, mirror(8,5) = 0, mirror(5,5) = 3.
\<close>

theorem clip_examples:
  "clipClamp' (- 1) 5 = Some 0 \<and> clipClamp' 5 5 = Some 4 \<and> clipClamp' 2 5 = Some 2 \<and>
   clipPeriodic' (- 1) 5 = Some 4 \<and> clipPeriodic' 5 5 = Some 0 \<and> clipPeriodic' 7 5 = Some 2 \<and>
   clipMirror' (- 1) 5 = Some 1 \<and> clipMirror' 8 5 = Some 0 \<and> clipMirror' 5 5 = Some 3"
  by (simp add: clipClamp'_def clipPeriodic'_def clipMirror'_def remainder_values)


lemma clipClamp_range:
  assumes "1 \<le> n"
  shows "\<exists>i. clipClamp' t n = Some i \<and> 0 \<le> i \<and> i < n"
  using assms by (simp add: clipClamp'_def)

lemma remainder_bounds:
  assumes "1 \<le> n"
  shows "\<exists>r. remainder t n = Some r \<and> - n < r \<and> r < n"
proof -
  have sq: "- n < s * q \<and> s * q < n"
    if "0 \<le> q" "q < n" "s = 1 \<or> s = 0 \<or> s = - 1" for s q :: int
    using that assms by auto
  have "sgn t = 1 \<or> sgn t = 0 \<or> sgn t = - 1" by (auto simp: sgn_if)
  moreover have "0 \<le> \<bar>t\<bar> mod n" "\<bar>t\<bar> mod n < n" using assms by simp_all
  ultimately have "- n < sgn t * (\<bar>t\<bar> mod n) \<and> sgn t * (\<bar>t\<bar> mod n) < n"
    by (intro sq)
  then show ?thesis using assms by (simp add: remainder_def)
qed

lemma clipPeriodic_range:
  assumes "1 \<le> n"
  shows "\<exists>i. clipPeriodic' t n = Some i \<and> 0 \<le> i \<and> i < n"
proof -
  obtain r where "remainder t n = Some r" "- n < r" "r < n"
    using remainder_bounds [OF assms] by blast
  then show ?thesis by (simp add: clipPeriodic'_def)
qed

text \<open>The mirror function reaches the range from the length 2 on.\<close>

lemma clipMirror_range:
  assumes "2 \<le> n"
  shows "\<exists>i. clipMirror' t n = Some i \<and> 0 \<le> i \<and> i < n"
proof -
  have "1 \<le> 2 * (n - 1)" using assms by simp
  then obtain r where "clipPeriodic' t (2 * (n - 1)) = Some r" "0 \<le> r" "r < 2 * (n - 1)"
    using clipPeriodic_range by blast
  then show ?thesis using assms by (simp add: clipMirror'_def Let_def)
qed

lemma clipMirror_one: "clipMirror' t 1 = None"
  by (simp add: clipMirror'_def clipPeriodic'_def remainder_def)

text \<open>
  Claim C2 says that clamp, periodic and mirror each map every integer into \<open>[0, n)\<close>
  for every \<open>n \<ge> 1\<close>. For the length 1 the period of the mirror function is 0 and the
  remainder by it is \<^verbatim>\<open>NaN\<close>: \<^verbatim>\<open>clipMirror_(1, 1)\<close> is \<^verbatim>\<open>NaN\<close>, no index, and
  the linear method on the one-sample buffer \<^verbatim>\<open>[7]\<close> with the mirror policy returns
  \<^verbatim>\<open>NaN\<close> at \<open>t = 0\<close>.
\<close>

theorem clipMirror_length_one:
  "clipMirror' 1 1 = None \<and>
   call_interpolate
     (Interpolator 1 2 (no_details\<lparr>method_name := Some ''linear'', clip := Some ''mirror''\<rparr>))
     0 [7] = None"
  by (simp add: call_interpolate_def linear_method_def Interpolator_def no_details_def Let_def
      Math_floor_def double_def getClippedInput'_def clipMirror_one element_def dadd_def
      dmul_def)

subsection \<open>The constructor\<close>

lemma clip_functions_distinct:
  "clipPeriodic' \<noteq> clipClamp'" "clipPeriodic' \<noteq> clipMirror'" "clipClamp' \<noteq> clipMirror'"
proof -
  have c: "clipClamp' 5 5 = Some 4" by (simp add: clipClamp'_def)
  have p: "clipPeriodic' 5 5 = Some 0" by (simp add: clipPeriodic'_def remainder_def)
  have m: "clipMirror' 5 5 = Some 3"
    by (simp add: clipMirror'_def clipPeriodic'_def remainder_def)
  show "clipPeriodic' \<noteq> clipClamp'" using c p by (metis option.inject zero_neq_numeral)
  show "clipPeriodic' \<noteq> clipMirror'" using m p by (metis option.inject zero_neq_numeral)
  show "clipClamp' \<noteq> clipMirror'"
    using c m by (metis option.inject numeral_eq_iff semiring_norm(88))
qed

lemma Interpolator_clip:
  "clip' (Interpolator scaleFrom scaleTo d) =
     (if clip d = Some ''periodic'' then clipPeriodic'
      else if clip d = Some ''mirror'' then clipMirror' else clipClamp')"
  by (simp add: Interpolator_def Let_def)

lemma Interpolator_scaleFactor:
  "scaleFactor' (Interpolator scaleFrom scaleTo d) =
     (if clip d = Some ''periodic'' then of_int scaleFrom / of_int scaleTo
      else of_int (scaleFrom - 1) / of_int scaleTo)"
  by (simp add: Interpolator_def Let_def)

lemma Interpolator_length: "length' (Interpolator scaleFrom scaleTo d) = scaleFrom"
  by (simp add: Interpolator_def Let_def split: prod.splits)

lemma Interpolator_interpolate:
  "interpolate (Interpolator scaleFrom scaleTo d) =
     (if method_name d = Some ''point'' then Point
      else if method_name d = Some ''linear'' then Linear
      else if method_name d = Some ''cubic'' then Cubic
      else Sinc)"
  by (simp add: Interpolator_def Let_def split: prod.splits)

text \<open>
  Claim C5. For lengths \<open>scaleFrom \<ge> 1\<close> and \<open>scaleTo \<ge> 1\<close> the scale factor is
  \<open>(scaleFrom - 1) / scaleTo\<close> when the clip function is clamp or mirror, and
  \<open>scaleFrom / scaleTo\<close> when it is periodic; it is periodic exactly for
  \<^verbatim>\<open>details.clip === 'periodic'\<close>.
\<close>

theorem scale_factor:
  assumes "1 \<le> scaleFrom" and "1 \<le> scaleTo"
  shows "((clip' (Interpolator scaleFrom scaleTo d) = clipClamp' \<or>
           clip' (Interpolator scaleFrom scaleTo d) = clipMirror') \<longrightarrow>
          scaleFactor' (Interpolator scaleFrom scaleTo d) =
            (of_int scaleFrom - 1) / of_int scaleTo) \<and>
         (clip' (Interpolator scaleFrom scaleTo d) = clipPeriodic' \<longrightarrow>
          scaleFactor' (Interpolator scaleFrom scaleTo d) =
            of_int scaleFrom / of_int scaleTo) \<and>
         (clip' (Interpolator scaleFrom scaleTo d) = clipPeriodic' \<longleftrightarrow>
          clip d = Some ''periodic'')"
  using clip_functions_distinct
  by (simp add: Interpolator_clip Interpolator_scaleFactor)

text \<open>
  The theorem of C5 at the lengths 5 and 10: the factor is \<open>2 / 5\<close> with no clip option
  (clamp) and \<open>1 / 2\<close> with \<^verbatim>\<open>clip: 'periodic'\<close>.
\<close>

theorem scale_factor_witness:
  "scaleFactor' (Interpolator 5 10 no_details) = 2 / 5 \<and>
   scaleFactor' (Interpolator 5 10 (no_details\<lparr>clip := Some ''periodic''\<rparr>)) = 1 / 2"
  using scale_factor [of 5 10 no_details]
    scale_factor [of 5 10 "no_details\<lparr>clip := Some ''periodic''\<rparr>"]
  by (simp add: Interpolator_clip no_details_def)

subsection \<open>The sinc function\<close>


subsection \<open>Fetching a sample\<close>

lemma getClippedInput_in_range:
  assumes "0 \<le> t" and "t < length' this"
  shows "getClippedInput' this t samples = element samples (Some t)"
  using assms by (simp add: getClippedInput'_def)

lemma element_in_range:
  assumes "0 \<le> i" and "i < int (length samples)"
  shows "element samples (Some i) = Some (samples ! nat i)"
  using assms by (simp add: element_def)

subsection \<open>Rounding to a double\<close>

lemma round_even_error: "\<bar>of_int (round_even y) - y\<bar> \<le> 1 / 2"
  unfolding round_even_def Let_def by (auto simp: abs_le_iff)

lemma round_even_eqI:
  assumes "\<bar>y - of_int m\<bar> < 1 / 2"
  shows "round_even y = m"
proof -
  have "of_int (m - 1) \<le> y" "y < of_int m + 1"
    using assms unfolding of_int_diff of_int_1 by linarith+
  then have "m - 1 \<le> \<lfloor>y\<rfloor>" "\<lfloor>y\<rfloor> < m + 1"
    by (simp_all only: le_floor_iff floor_less_iff of_int_add of_int_1)
  then have "\<lfloor>y\<rfloor> = m \<or> \<lfloor>y\<rfloor> = m - 1" by linarith
  then show ?thesis
  proof
    assume f: "\<lfloor>y\<rfloor> = m"
    have "y - of_int m < 1 / 2" using assms by linarith
    then show ?thesis by (simp add: round_even_def f)
  next
    assume f: "\<lfloor>y\<rfloor> = m - 1"
    have "y - of_int (m - 1) > 1 / 2" using assms unfolding of_int_diff of_int_1 by linarith
    then show ?thesis by (simp add: round_even_def f del: of_int_diff)
  qed
qed

lemma round_even_nonneg: "0 \<le> y \<Longrightarrow> 0 \<le> round_even y"
  unfolding round_even_def Let_def by auto

lemma floor_log2_eqI:
  assumes "2 powr of_int e \<le> x" and "x < 2 powr of_int (e + 1)"
  shows "\<lfloor>log 2 x\<rfloor> = e"
proof (rule floor_unique)
  have x: "0 < x" using assms(1) powr_gt_zero [of 2 "of_int e"] by linarith
  show "of_int e \<le> log 2 x" using assms(1) x by (simp add: le_log_iff)
  show "log 2 x < of_int e + 1" using assms(2) x by (simp add: log_less_iff)
qed

lemma powr_floor_log2_le:
  assumes "x \<noteq> 0"
  shows "2 powr of_int \<lfloor>log 2 \<bar>x\<bar>\<rfloor> \<le> \<bar>x\<bar>"
proof -
  have "2 powr of_int \<lfloor>log 2 \<bar>x\<bar>\<rfloor> \<le> 2 powr log 2 \<bar>x\<bar>"
    by (intro powr_mono) simp_all
  also have "\<dots> = \<bar>x\<bar>" using assms by simp
  finally show ?thesis .
qed

text \<open>The error of rounding is at most half a unit in the last place.\<close>

lemma double_error:
  assumes "x \<noteq> 0"
  shows "\<bar>double x - x\<bar> \<le> 2 powr of_int (max \<lfloor>log 2 \<bar>x\<bar>\<rfloor> (- 1022) - 52) / 2"
proof -
  define q :: real where "q = 2 powr of_int (max \<lfloor>log 2 \<bar>x\<bar>\<rfloor> (- 1022) - 52)"
  have q: "0 < q" by (simp add: q_def)
  have "double x = of_int (round_even (x / q)) * q"
    using assms by (simp add: double_def Let_def q_def)
  then have "double x - x = (of_int (round_even (x / q)) - x / q) * q"
    using q by (simp add: field_simps)
  then have "\<bar>double x - x\<bar> = \<bar>of_int (round_even (x / q)) - x / q\<bar> * q"
    using q by (simp add: abs_mult)
  also have "\<dots> \<le> 1 / 2 * q"
    using q round_even_error by (intro mult_right_mono) simp_all
  finally show ?thesis by (simp add: q_def)
qed

lemma double_error_rel:
  assumes "1 / 2 ^ 1022 \<le> \<bar>x\<bar>"
  shows "\<bar>double x - x\<bar> \<le> \<bar>x\<bar> / 2 ^ 53"
proof -
  have "(0::real) < 1 / 2 ^ 1022" by simp
  then have "0 < \<bar>x\<bar>" using assms by linarith
  then have x: "x \<noteq> 0" by simp
  have "(2::real) powr of_int (- 1022) = 1 / 2 ^ 1022"
    by (simp add: powr_minus_divide)
  then have "2 powr of_int (- 1022) \<le> \<bar>x\<bar>" using assms by simp
  then have "of_int (- 1022) \<le> log 2 \<bar>x\<bar>" using x by (simp add: le_log_iff)
  then have "- 1022 \<le> \<lfloor>log 2 \<bar>x\<bar>\<rfloor>" by (simp add: le_floor_iff)
  then have m: "max \<lfloor>log 2 \<bar>x\<bar>\<rfloor> (- 1022) = \<lfloor>log 2 \<bar>x\<bar>\<rfloor>" by simp
  have "(2::real) powr of_int (\<lfloor>log 2 \<bar>x\<bar>\<rfloor> - 52) = 2 powr of_int \<lfloor>log 2 \<bar>x\<bar>\<rfloor> / 2 ^ 52"
    by (simp add: powr_diff)
  then have "\<bar>double x - x\<bar> \<le> 2 powr of_int \<lfloor>log 2 \<bar>x\<bar>\<rfloor> / 2 ^ 52 / 2"
    using double_error [OF x] unfolding m by simp
  also have "\<dots> \<le> \<bar>x\<bar> / 2 ^ 52 / 2"
    using powr_floor_log2_le [OF x] by (simp add: divide_right_mono)
  finally show ?thesis by simp
qed

lemma double_error_small:
  assumes "\<bar>x\<bar> < 1 / 2 ^ 1022"
  shows "\<bar>double x - x\<bar> \<le> 1 / 2 ^ 1075"
proof (cases "x = 0")
  case True
  then show ?thesis by (simp add: double_def)
next
  case False
  have p: "(2::real) powr of_int (- 1022) = 1 / 2 ^ 1022"
    by (simp add: powr_minus_divide)
  have "log 2 \<bar>x\<bar> < of_int (- 1022)"
    using assms False unfolding p [symmetric] by (simp add: log_less_iff)
  then have "\<lfloor>log 2 \<bar>x\<bar>\<rfloor> < - 1022" by (simp add: floor_less_iff)
  then have m: "max \<lfloor>log 2 \<bar>x\<bar>\<rfloor> (- 1022) = - 1022" by simp
  have "(2::real) powr of_int (- 1022 - 52) / 2 = 1 / 2 ^ 1075"
    by (simp add: powr_minus_divide)
  then show ?thesis using double_error [OF False] unfolding m by simp
qed

lemma double_error_bound:
  "\<bar>double x - x\<bar> \<le> \<bar>x\<bar> / 2 ^ 53 + 1 / 2 ^ 1075"
proof (cases "\<bar>x\<bar> < 1 / 2 ^ 1022")
  case True
  have "0 \<le> \<bar>x\<bar> / 2 ^ 53" by simp
  then show ?thesis using double_error_small [OF True] by linarith
next
  case False
  then have "1 / 2 ^ 1022 \<le> \<bar>x\<bar>" by simp
  moreover have "(0::real) \<le> 1 / 2 ^ 1075" by simp
  ultimately show ?thesis using double_error_rel [of x] by linarith
qed

lemma double_nonneg:
  assumes "0 \<le> x"
  shows "0 \<le> double x"
  using assms by (simp add: double_def Let_def round_even_nonneg)

lemma double_eqI:
  assumes "2 powr of_int e \<le> \<bar>x\<bar>" and "\<bar>x\<bar> < 2 powr of_int (e + 1)" and "- 1022 \<le> e"
    and "q = 2 powr of_int (e - 52)" and "\<bar>x / q - of_int m\<bar> < 1 / 2"
  shows "double x = of_int m * q"
proof -
  have "0 < \<bar>x\<bar>" using assms(1) powr_gt_zero [of 2 "of_int e"] by linarith
  then have x: "x \<noteq> 0" by simp
  have "\<lfloor>log 2 \<bar>x\<bar>\<rfloor> = e" using assms(1,2) by (rule floor_log2_eqI)
  then have "max \<lfloor>log 2 \<bar>x\<bar>\<rfloor> (- 1022) = e" using assms(3) by simp
  then show ?thesis
    using x assms(4) round_even_eqI [OF assms(5)] by (simp add: double_def Let_def)
qed

text \<open>
  The rounded product of a rounded factor \<open>s\<close> with \<open>t\<close> lies within
  \<open>s * t / 2\<^sup>5\<^sup>1\<close> of the exact product, up to the least subnormal.
\<close>

lemma scaled_error:
  assumes "1 / 2 ^ 1022 \<le> s" and "0 \<le> t"
  shows "\<bar>double (double s * t) - s * t\<bar> \<le> s * t / 2 ^ 51 + 1 / 2 ^ 1075"
proof -
  define d :: real where "d = 1 / 2 ^ 1075"
  define e :: real where "e = 1 / 2 ^ 53"
  have "(0::real) < 1 / 2 ^ 1022" by simp
  then have s: "0 < s" using assms(1) by linarith
  have "\<bar>double s - s\<bar> \<le> s * e" using double_error_rel [of s] assms(1) s by (simp add: e_def)
  then have 1: "\<bar>double s * t - s * t\<bar> \<le> s * t * e"
  proof -
    assume a: "\<bar>double s - s\<bar> \<le> s * e"
    have "\<bar>double s * t - s * t\<bar> = \<bar>double s - s\<bar> * t"
      using assms(2) by (simp add: abs_mult left_diff_distrib [symmetric])
    also have "\<dots> \<le> s * e * t" using a assms(2) by (intro mult_right_mono)
    finally show ?thesis by (simp add: mult_ac)
  qed
  have st: "0 \<le> s * t" using s assms(2) by simp
  have e: "0 \<le> e" "e \<le> 1" by (simp_all add: e_def)
  have p: "\<bar>double s * t\<bar> \<le> s * t + s * t * e" using 1 st by linarith
  have "\<bar>double (double s * t) - double s * t\<bar> \<le> \<bar>double s * t\<bar> * e + d"
    using double_error_bound [of "double s * t"] by (simp add: e_def d_def)
  also have "\<dots> \<le> (s * t + s * t * e) * e + d"
    using p e by (simp add: mult_right_mono)
  finally have 2: "\<bar>double (double s * t) - double s * t\<bar> \<le> (s * t + s * t * e) * e + d" .
  have "\<bar>double (double s * t) - s * t\<bar> \<le> s * t * e + ((s * t + s * t * e) * e + d)"
    using 1 2 by linarith
  also have "\<dots> = s * t * (2 * e + e * e) + d" by (simp add: algebra_simps)
  also have "\<dots> \<le> s * t * (1 / 2 ^ 51) + d"
  proof -
    have "2 * e + e * e \<le> 1 / 2 ^ 51" by (simp add: e_def)
    then have "s * t * (2 * e + e * e) \<le> s * t * (1 / 2 ^ 51)"
      using st by (rule mult_left_mono)
    then show ?thesis by linarith
  qed
  finally show ?thesis by (simp add: d_def)
qed

lemma round_even_ge:
  assumes "of_int m - 1 / 2 < z"
  shows "m \<le> round_even z"
proof -
  have "of_int (m - 1) \<le> z" using assms unfolding of_int_diff of_int_1 by linarith
  then have f: "m - 1 \<le> \<lfloor>z\<rfloor>" by (simp only: le_floor_iff)
  show ?thesis
  proof (cases "\<lfloor>z\<rfloor> = m - 1")
    case True
    have "z - of_int (m - 1) > 1 / 2" using assms unfolding of_int_diff of_int_1 by linarith
    then show ?thesis by (simp add: round_even_def True del: of_int_diff)
  next
    case False
    then have "m \<le> \<lfloor>z\<rfloor>" using f by linarith
    moreover have "\<lfloor>z\<rfloor> \<le> round_even z" by (simp add: round_even_def Let_def)
    ultimately show ?thesis by linarith
  qed
qed

lemma double_ge:
  assumes "2 powr of_int e \<le> x" and "x < 2 powr of_int (e + 1)" and "- 1022 \<le> e"
    and "y = of_int m * 2 powr of_int (e - 52)"
    and "y - 2 powr of_int (e - 52) / 2 < x"
  shows "y \<le> double x"
proof -
  define q :: real where "q = 2 powr of_int (e - 52)"
  have q: "0 < q" by (simp add: q_def)
  have x: "0 < x" using assms(1) powr_gt_zero [of 2 "of_int e"] by linarith
  have "\<lfloor>log 2 \<bar>x\<bar>\<rfloor> = e" using assms(1,2) x by (intro floor_log2_eqI) simp_all
  then have "max \<lfloor>log 2 \<bar>x\<bar>\<rfloor> (- 1022) = e" using assms(3) by simp
  then have d: "double x = of_int (round_even (x / q)) * q"
    using x by (simp add: double_def Let_def q_def)
  have "of_int m * q - q / 2 < x" using assms(4,5) by (simp add: q_def)
  then have "(of_int m - 1 / 2) * q < x" by (simp add: algebra_simps)
  then have "of_int m - 1 / 2 < x / q" using q by (simp add: pos_less_divide_eq)
  then have "m \<le> round_even (x / q)" by (rule round_even_ge)
  then have "of_int m * q \<le> of_int (round_even (x / q)) * q"
    using q by (intro mult_right_mono) simp_all
  then show ?thesis unfolding d assms(4) q_def .
qed

lemma double_dyadic_below_one:
  assumes "j \<le> 52"
  shows "double (1 - 1 / 2 ^ (j + 1)) = 1 - 1 / 2 ^ (j + 1)"
proof -
  define s :: real where "s = 1 - 1 / 2 ^ (j + 1)"
  have "(1::real) / 2 ^ (j + 1) \<le> 1 / 2 ^ 1"
    by (intro divide_left_mono power_increasing) simp_all
  then have s: "1 / 2 \<le> s" "s < 1" by (simp_all add: s_def)
  have "(2::real) ^ 53 / 2 ^ (j + 1) = 2 ^ (53 - (j + 1))"
    using assms by (subst power_diff) simp_all
  then have "s * 2 ^ 53 = 2 ^ 53 - 2 ^ (52 - j)"
    by (simp add: s_def algebra_simps)
  also have "\<dots> = of_int (2 ^ 53 - 2 ^ (52 - j))" by simp
  finally have m: "s / (1 / 2 ^ 53) = of_int (2 ^ 53 - 2 ^ (52 - j))" by simp
  have "double s = of_int (2 ^ 53 - 2 ^ (52 - j)) * (1 / 2 ^ 53)"
  proof (rule double_eqI [where e = "- 1"])
    show "2 powr of_int (- 1) \<le> \<bar>s\<bar>" using s by (simp add: powr_minus_divide)
    show "\<bar>s\<bar> < 2 powr of_int (- 1 + 1)" using s by simp
    show "(1::real) / 2 ^ 53 = 2 powr of_int (- 1 - 52)" by (simp add: powr_minus_divide)
    show "\<bar>s / (1 / 2 ^ 53) - of_int (2 ^ 53 - 2 ^ (52 - j))\<bar> < 1 / 2" unfolding m by simp
  qed simp
  also have "\<dots> = s" using m by simp
  finally show ?thesis unfolding s_def .
qed

lemma double_error_below_one:
  assumes "1 / 2 \<le> s" and "s < 1"
  shows "\<bar>double s - s\<bar> \<le> 1 / 2 ^ 54"
proof -
  have s: "s \<noteq> 0" using assms by auto
  have "\<lfloor>log 2 \<bar>s\<bar>\<rfloor> = - 1"
    using assms by (intro floor_log2_eqI) (simp_all add: powr_minus_divide)
  then have m: "max \<lfloor>log 2 \<bar>s\<bar>\<rfloor> (- 1022) = - 1" by simp
  have "(2::real) powr of_int (- 1 - 52) / 2 = 1 / 2 ^ 54" by (simp add: powr_minus_divide)
  then show ?thesis using double_error [OF s] unfolding m by simp
qed

lemma powr_int_nat:
  assumes "0 \<le> k"
  shows "(2::real) powr of_int k = of_int (2 ^ nat k)"
proof -
  have "(2::real) powr of_int k = 2 powr real (nat k)" using assms by simp
  also have "\<dots> = 2 ^ nat k" by (rule powr_realpow) simp
  finally show ?thesis by simp
qed

lemma double_zero: "double 0 = 0"
  by (simp add: double_def)

lemma double_one: "double 1 = 1"
proof -
  have "double 1 = of_int 4503599627370496 * (1 / 2 ^ 52)"
    by (rule double_eqI [where e = 0]) (simp_all add: powr_minus_divide)
  then show ?thesis by simp
qed

subsection \<open>The point method on buffers of the target length\<close>

text \<open>
  With equal lengths \<open>n\<close> the scale factor is the double of \<open>(n - 1) / n\<close>. Up to the
  length \<open>2\<^sup>2\<^sup>5\<close> the two roundings move the product with \<open>t\<close> by less than its
  distance \<open>1 / (2 * n)\<close> from the next half-integer, so the rounded index is the one of
  exact arithmetic; at \<open>2 * t = n\<close> the product rounds to \<open>t - 1 / 2\<close> itself.
\<close>

lemma point_index:
  fixes n t :: int
  assumes "2 \<le> n" and "n \<le> 2 ^ 25" and "0 \<le> t" and "t < n"
  defines "i \<equiv> Math_round (double (double (of_int (n - 1) / of_int n) * of_int t))"
  shows "2 * t < n \<Longrightarrow> i = t"
    and "n < 2 * t \<Longrightarrow> i = t - 1"
    and "2 * t = n \<Longrightarrow> i = t \<or> i = t - 1"
proof -
  define a :: real where "a = of_int n"
  define r :: real where "r = of_int t"
  define s :: real where "s = (a - 1) / a"
  define u :: real where "u = double (double s * r)"
  define dl :: real where "dl = 1 / 2 ^ 1075"
  have i: "i = \<lfloor>u + 1 / 2\<rfloor>"
    by (simp add: i_def Math_round_def u_def s_def a_def r_def)
  have a: "2 \<le> a" "a \<le> 2 ^ 25" using assms(1,2) by (simp_all add: a_def)
  have r: "0 \<le> r" "r \<le> a - 1" using assms(3,4) by (simp_all add: r_def a_def)
  have s1: "s = 1 - 1 / a" using a by (simp add: s_def field_simps)
  have "1 / a \<le> 1 / 2" using a by (simp add: field_simps)
  then have s: "1 / 2 \<le> s" "s \<le> 1" using a by (simp_all add: s1)
  have "(1::real) / 2 ^ 1022 \<le> 1 / 2" by simp
  then have sn: "1 / 2 ^ 1022 \<le> s" using s(1) by linarith
  have w: "s * r = r - r / a" by (simp add: s1 algebra_simps)
  have "s * r \<le> 1 * r" using s(2) r(1) by (intro mult_right_mono)
  then have "s * r / 2 ^ 51 \<le> r / 2 ^ 51" by (simp add: divide_right_mono)
  then have err: "\<bar>u - (r - r / a)\<bar> \<le> r / 2 ^ 51 + dl"
    using scaled_error [OF sn r(1)] unfolding u_def dl_def w by linarith
  have dl: "0 < dl" "dl < 1 / 2 ^ 51" by (simp_all add: dl_def)
  have ia: "1 / 2 ^ 26 \<le> 1 / (2 * a)" using a by (simp add: field_simps)
  have r51: "r / 2 ^ 51 \<le> 1 / 2 ^ 26 - 1 / 2 ^ 51" using r(2) a(2) by (simp add: field_simps)
  have ra1: "r / a < 1" using r a by (simp add: field_simps)
  {
    assume "2 * t < n"
    then have "2 * t + 1 \<le> n" by simp
    then have "of_int (2 * t + 1) \<le> (of_int n :: real)" by (simp only: of_int_le_iff)
    then have h: "2 * r + 1 \<le> a" by (simp add: r_def a_def)
    then have "r / a \<le> 1 / 2 - 1 / (2 * a)" using a by (simp add: field_simps)
    then have lo: "r - 1 / 2 + 1 / 2 ^ 26 \<le> r - r / a" using ia by linarith
    have "r \<le> 2 ^ 24" using h a(2) by simp
    then have "r / 2 ^ 51 \<le> 1 / 2 ^ 27" by (simp add: field_simps)
    moreover have "(1::real) / 2 ^ 51 \<le> 1 / 2 ^ 27" "(1::real) / 2 ^ 26 = 1 / 2 ^ 27 + 1 / 2 ^ 27"
      "(1::real) / 2 ^ 27 < 1 / 4" by simp_all
    moreover have "0 \<le> r / a" using r a by simp
    ultimately have "r \<le> u + 1 / 2" "u + 1 / 2 < r + 1" using err lo dl by linarith+
    then have "\<lfloor>u + 1 / 2\<rfloor> = t" unfolding r_def by (intro floor_unique)
    then show "i = t" by (simp add: i)
  }
  {
    assume "n < 2 * t"
    then have "n + 1 \<le> 2 * t" by simp
    then have "of_int (n + 1) \<le> (of_int (2 * t) :: real)" by (simp only: of_int_le_iff)
    then have "a + 1 \<le> 2 * r" by (simp add: r_def a_def)
    then have "(a + 1) / (2 * a) \<le> 2 * r / (2 * a)" using a by (intro divide_right_mono) simp_all
    moreover have "(a + 1) / (2 * a) = 1 / 2 + 1 / (2 * a)" using a by (simp add: field_simps)
    ultimately have "1 / 2 + 1 / (2 * a) \<le> r / a" by simp
    then have hi: "r - r / a \<le> r - 1 / 2 - 1 / 2 ^ 26" using ia by linarith
    have "(1::real) / 2 ^ 26 < 1 / 4" by simp
    then have "r - 1 \<le> u + 1 / 2" "u + 1 / 2 < r - 1 + 1" using err hi dl r51 ra1 by linarith+
    then have "of_int (t - 1) \<le> u + 1 / 2" "u + 1 / 2 < of_int (t - 1) + 1"
      by (simp_all add: r_def)
    then have "\<lfloor>u + 1 / 2\<rfloor> = t - 1" by (rule floor_unique)
    then show "i = t - 1" by (simp add: i)
  }
  {
    assume "2 * t = n"
    then have "of_int (2 * t) = (of_int n :: real)" by simp
    then have "2 * r = a" by (simp add: r_def a_def)
    then have "r / a = 1 / 2" using a by (simp add: field_simps)
    moreover have "(1::real) / 2 ^ 26 < 1 / 4" by simp
    ultimately have "r - 1 \<le> u + 1 / 2" "u + 1 / 2 < r + 1" using err dl r51 by linarith+
    then have "of_int (t - 1) \<le> u + 1 / 2" "u + 1 / 2 < of_int t + 1"
      by (simp_all add: r_def)
    then have "t - 1 \<le> \<lfloor>u + 1 / 2\<rfloor>" "\<lfloor>u + 1 / 2\<rfloor> < t + 1"
      by (simp_all only: le_floor_iff floor_less_iff of_int_add of_int_1)
    then show "i = t \<or> i = t - 1" unfolding i by linarith
  }
qed

lemma point_index_tie:
  fixes t :: int
  assumes "1 \<le> t" and "t \<le> 2 ^ 24"
  shows "of_int t - 1 / 2 \<le> double (double (of_int (2 * t - 1) / of_int (2 * t)) * of_int t)"
proof -
  define r :: real where "r = of_int t"
  define s :: real where "s = 1 - 1 / (2 * r)"
  define x :: real where "x = double s * r"
  define y :: real where "y = r - 1 / 2"
  define e :: int where "e = \<lfloor>log 2 x\<rfloor>"
  define q :: real where "q = 2 powr of_int (e - 52)"
  have r: "1 \<le> r" "r \<le> 2 ^ 24" using assms by (simp_all add: r_def)
  have sq: "of_int (2 * t - 1) / of_int (2 * t) = s" using r by (simp add: s_def r_def field_simps)
  have "1 / (2 * r) \<le> 1 / 2" "0 < 1 / (2 * r)" using r by (simp_all add: field_simps)
  then have s: "1 / 2 \<le> s" "s < 1" by (simp_all add: s_def)
  have ds: "\<bar>double s - s\<bar> \<le> 1 / 2 ^ 54" using s by (rule double_error_below_one)
  have sr: "s * r = y" using r by (simp add: s_def y_def field_simps)
  have "\<bar>x - y\<bar> = \<bar>double s - s\<bar> * r"
    unfolding x_def sr [symmetric] using r by (simp add: abs_mult left_diff_distrib [symmetric])
  also have "\<dots> \<le> 1 / 2 ^ 54 * r" using ds r by (intro mult_right_mono) simp_all
  finally have xy: "\<bar>x - y\<bar> \<le> r / 2 ^ 54" by simp
  have "r / 2 ^ 54 \<le> 1 / 2 ^ 30" using r by (simp add: field_simps)
  moreover have "(1::real) / 2 ^ 30 < 1 / 4" by simp
  ultimately have "\<bar>x - (r - 1 / 2)\<bar> < 1 / 4" using xy unfolding y_def by linarith
  moreover have "(2::real) ^ 24 < 2 ^ 25 - 1" by simp
  ultimately have xb: "1 / 4 < x" "x < 2 ^ 25" "r - 1 < x" using r by linarith+
  have x0: "0 < x" using xb by linarith
  have b1: "2 powr of_int e \<le> x"
    using powr_floor_log2_le [of x] x0 by (simp add: e_def)
  have b2: "x < 2 powr of_int (e + 1)"
  proof -
    have "log 2 x < of_int e + 1" by (simp add: e_def)
    then show ?thesis using x0 by (simp add: log_less_iff)
  qed
  have "(2::real) powr of_int (- 2) = 1 / 4" by (simp add: powr_minus_divide)
  then have "(2::real) powr of_int (- 2) < 2 powr of_int (e + 1)" using xb(1) b2 by linarith
  then have "(of_int (- 2) :: real) < of_int (e + 1)" by (rule powr_less_cancel) simp
  then have "- 2 < e + 1" by (simp only: of_int_less_iff)
  then have e_lo: "- 2 \<le> e" by simp
  have "(2::real) powr of_int 25 = 2 ^ 25" by simp
  then have "(2::real) powr of_int e < 2 powr of_int 25" using xb(2) b1 by linarith
  then have "(of_int e :: real) < of_int 25" by (rule powr_less_cancel) simp
  then have e_hi: "e < 25" by (simp only: of_int_less_iff)
  define m :: int where "m = (2 * t - 1) * 2 ^ nat (51 - e)"
  have pn: "(2::real) powr of_int (51 - e) = of_int (2 ^ nat (51 - e))"
    using e_hi by (intro powr_int_nat) simp
  have "of_int m * q = (2 * r - 1) * (2 powr of_int (51 - e) * 2 powr of_int (e - 52))"
    unfolding pn m_def q_def r_def by simp
  also have "2 powr of_int (51 - e) * 2 powr of_int (e - 52) = (2::real) powr (- 1)"
    by (simp add: powr_add [symmetric])
  also have "(2 * r - 1) * 2 powr (- 1) = y" by (simp add: y_def powr_minus_divide field_simps)
  finally have ym: "y = of_int m * 2 powr of_int (e - 52)" by (simp add: q_def)
  have q: "0 < q" by (simp add: q_def)
  have half: "y - q / 2 < x"
  proof (cases "\<exists>j. t = 2 ^ j")
    case True
    then obtain j where j: "t = 2 ^ j" by blast
    have "(2::int) ^ j \<le> 2 ^ 24" using assms(2) j by simp
    then have "j \<le> 24" by (rule power_le_imp_le_exp [rotated]) simp
    then have j52: "j \<le> 52" by simp
    have "s = 1 - 1 / 2 ^ (j + 1)" by (simp add: s_def r_def j)
    then have "double s = s" using double_dyadic_below_one [OF j52] by simp
    then have "x = y" by (simp add: x_def sr)
    then show ?thesis using q by simp
  next
    case False
    have t3: "3 \<le> t"
    proof (rule ccontr)
      assume "\<not> 3 \<le> t"
      then have "t = 2 ^ 0 \<or> t = 2 ^ 1" using assms(1) by auto
      then show False using False by blast
    qed
    then have "3 \<le> r" by (simp add: r_def)
    then have "1 < x" using xb(3) by linarith
    then have "(2::real) powr 0 < 2 powr of_int (e + 1)" using b2 by simp
    then have "(0::real) < of_int (e + 1)" by (rule powr_less_cancel) simp
    then have e0: "0 \<le> e + 1" by simp
    define P :: int where "P = 2 ^ nat (e + 1)"
    define B :: real where "B = 2 powr of_int (e + 1)"
    have P: "B = of_int P"
      unfolding P_def B_def using e0 by (rule powr_int_nat)
    have xB: "x < B" using b2 by (simp only: B_def)
    have "r < B"
    proof (rule ccontr)
      assume "\<not> r < B"
      then have "of_int P \<le> (of_int t :: real)" unfolding P r_def by simp
      then have 1: "P \<le> t" by (simp only: of_int_le_iff)
      have "r - 1 < of_int P" using xb(3) xB unfolding P by linarith
      then have "of_int (t - 1) < (of_int P :: real)" by (simp add: r_def)
      then have "t - 1 < P" by (simp only: of_int_less_iff)
      then have "t = 2 ^ nat (e + 1)" using 1 by (simp add: P_def)
      then show False using False by blast
    qed
    then have "r / 2 ^ 54 < B / 2 ^ 54" by (simp add: divide_strict_right_mono)
    also have "B / 2 ^ 54 = q / 2"
    proof -
      have "of_int (e - 52) = (of_int (e + 1) :: real) - 53" by simp
      then have "q = B / 2 powr 53" unfolding q_def B_def by (simp only: powr_diff)
      then show ?thesis by simp
    qed
    finally show ?thesis using xy by linarith
  qed
  have "y \<le> double x"
    using b1 b2 _ ym half [unfolded q_def]
  proof (rule double_ge)
    show "- 1022 \<le> e" using e_lo by simp
  qed
  then show ?thesis unfolding x_def y_def sq r_def .
qed

lemma point_index_upto_half:
  fixes n t :: int
  assumes "2 \<le> n" and "n \<le> 2 ^ 25" and "0 \<le> t" and "2 * t = n"
  shows "Math_round (double (double (of_int (n - 1) / of_int n) * of_int t)) = t"
proof -
  let ?u = "double (double (of_int (n - 1) / of_int n) * of_int t)"
  have t: "1 \<le> t" "t \<le> 2 ^ 24" "t < n" using assms by simp_all
  have "Math_round ?u = t \<or> Math_round ?u = t - 1"
    using point_index(3) [OF assms(1,2,3) t(3) assms(4)] .
  then have "\<lfloor>?u + 1 / 2\<rfloor> \<le> t" unfolding Math_round_def by linarith
  moreover have "of_int t - 1 / 2 \<le> ?u"
    using point_index_tie [OF t(1,2)] unfolding assms(4) .
  then have "of_int t \<le> ?u + 1 / 2" by linarith
  then have "t \<le> \<lfloor>?u + 1 / 2\<rfloor>" by (simp only: le_floor_iff)
  ultimately show ?thesis unfolding Math_round_def by linarith
qed

lemma point_same_length:
  assumes "method_name d = Some ''point''" and "clip d \<noteq> Some ''periodic''"
    and "1 \<le> n" and "n \<le> 2 ^ 25" and "length samples = nat n" and "0 \<le> t" and "t < n"
  shows "call_interpolate (Interpolator n n d) (of_int t) samples =
           Some (samples ! nat (if 2 * t \<le> n then t else t - 1))"
proof -
  let ?i = "if 2 * t \<le> n then t else t - 1"
  have sf: "scaleFactor' (Interpolator n n d) = of_int (n - 1) / of_int n"
    using assms(2) by (simp only: Interpolator_scaleFactor if_False)
  have r: "Math_round (double (double (scaleFactor' (Interpolator n n d)) * of_int t)) = ?i"
  proof (cases "n = 1")
    case True
    then have "t = 0" using assms(6,7) by simp
    then show ?thesis unfolding sf using True by (simp add: double_def Math_round_def)
  next
    case False
    then have n: "2 \<le> n" using assms(3) by simp
    consider "2 * t < n" | "2 * t = n" | "n < 2 * t" by linarith
    then show ?thesis
    proof cases
      case 1
      then show ?thesis unfolding sf using point_index(1) [OF n assms(4,6,7)] by simp
    next
      case 2
      then show ?thesis
        unfolding sf using point_index_upto_half [OF n assms(4,6)] by simp
    next
      case 3
      then show ?thesis unfolding sf using point_index(2) [OF n assms(4,6,7)] by simp
    qed
  qed
  have i: "0 \<le> ?i" "?i < n" using assms by auto
  have "point (Interpolator n n d) (of_int t) samples = element samples (Some ?i)"
    unfolding point_def r using i
    by (intro getClippedInput_in_range) (simp_all add: Interpolator_length)
  also have "\<dots> = Some (samples ! nat ?i)"
    using i assms by (intro element_in_range) simp_all
  finally show ?thesis using assms by (simp add: call_interpolate_def Interpolator_interpolate)
qed

lemma double_three_quarters: "double (3 / 4) = 3 / 4"
proof -
  have "double (3 / 4) = of_int 6755399441055744 * (1 / 2 ^ 53)"
    by (rule double_eqI [where e = "- 1"]) (simp_all add: powr_minus_divide)
  then show ?thesis by simp
qed

lemma double_nine_quarters: "double (3 / 4 * 3) = 9 / 4"
proof -
  have "double (3 / 4 * 3) = of_int 5066549580791808 * (1 / 2 ^ 51)"
    by (rule double_eqI [where e = 1]) (simp_all add: powr_minus_divide)
  then show ?thesis by simp
qed

text \<open>
  Claim C3 says that for the point method with the clamp policy and equal lengths
  \<open>evaluate t\<close> is \<open>samples[t]\<close> for every integer \<open>t\<close> of \<open>[0, targetLength)\<close>. With the
  length 4 the scale factor is the double \<open>3 / 4\<close>, its product with \<open>t = 3\<close> is the double
  \<open>9 / 4\<close>, and the rounded index is 2: the result is \<open>samples[2] = 30\<close>, not
  \<open>samples[3] = 40\<close>.
\<close>

theorem point_identity_counterexample:
  "call_interpolate
     (Interpolator 4 4 (no_details\<lparr>method_name := Some ''point'', clip := Some ''clamp''\<rparr>))
     3 [10, 20, 30, 40] \<noteq> Some ([10, 20, 30, 40] ! 3)"
proof -
  let ?ip = "Interpolator 4 4 (no_details\<lparr>method_name := Some ''point'', clip := Some ''clamp''\<rparr>)"
  have sf: "scaleFactor' ?ip = 3 / 4"
    by (simp add: Interpolator_scaleFactor no_details_def)
  have "\<lfloor>9 / 4 + 1 / 2 :: real\<rfloor> = 2" by (rule floor_unique) simp_all
  then have i: "Math_round (double (double (scaleFactor' ?ip) * 3)) = 2"
    unfolding sf double_three_quarters double_nine_quarters Math_round_def .
  have "point ?ip 3 [10, 20, 30, 40] = Some 30"
    unfolding point_def i by (simp add: getClippedInput'_def Interpolator_length element_def)
  then show ?thesis
    by (simp add: call_interpolate_def Interpolator_interpolate no_details_def)
qed

text \<open>
  Claim C3 as amended. For the point method with the clamp policy, equal lengths
  \<open>sourceLength = targetLength\<close> from 1 to \<open>2\<^sup>2\<^sup>5\<close> and a buffer of this length, for every
  integer \<open>t\<close> of \<open>[0, targetLength)\<close> the result is \<open>samples[t]\<close> when
  \<open>2 * t \<le> targetLength\<close> and \<open>samples[t - 1]\<close> otherwise.
\<close>

theorem point_near_identity:
  assumes "method_name d = Some ''point''" and "clip d = Some ''clamp''"
    and "sourceLength = targetLength" and "1 \<le> targetLength" and "targetLength \<le> 2 ^ 25"
    and "length samples = nat sourceLength" and "0 \<le> t" and "t < targetLength"
  shows "call_interpolate (Interpolator sourceLength targetLength d) (of_int t) samples =
           (if 2 * t \<le> targetLength then Some (samples ! nat t)
            else Some (samples ! nat (t - 1)))"
  using point_same_length [of d targetLength samples t] assms by auto

text \<open>
  The theorem at the length 4: \<open>t = 2\<close> gives \<open>samples[2]\<close> and \<open>t = 3\<close> gives
  \<open>samples[2]\<close> too.
\<close>

theorem point_near_identity_witness:
  "call_interpolate
     (Interpolator 4 4 (no_details\<lparr>method_name := Some ''point'', clip := Some ''clamp''\<rparr>))
     2 [10, 20, 30, 40] = Some 30 \<and>
   call_interpolate
     (Interpolator 4 4 (no_details\<lparr>method_name := Some ''point'', clip := Some ''clamp''\<rparr>))
     3 [10, 20, 30, 40] = Some 30"
  using
    point_near_identity [of "no_details\<lparr>method_name := Some ''point'', clip := Some ''clamp''\<rparr>"
      4 4 "[10, 20, 30, 40]" 2]
    point_near_identity [of "no_details\<lparr>method_name := Some ''point'', clip := Some ''clamp''\<rparr>"
      4 4 "[10, 20, 30, 40]" 3]
  by (simp add: no_details_def)

subsection \<open>The linear method\<close>

lemma linear_index_bounds:
  fixes n m :: int and t :: real
  assumes "clip d \<noteq> Some ''periodic''" and "2 \<le> n" and "n \<le> 2 ^ 50"
    and "1 \<le> m" and "m \<le> 2 ^ 50" and "0 \<le> t"
  defines "k \<equiv> Math_floor (double (double (scaleFactor' (Interpolator n m d)) * t))"
  shows "0 \<le> k"
    and "t < of_int m \<Longrightarrow> k < n"
    and "t \<le> of_int m - 1 \<Longrightarrow> k + 1 < n"
proof -
  define a :: real where "a = of_int (n - 1)"
  define b :: real where "b = of_int m"
  define s :: real where "s = a / b"
  define u :: real where "u = double (double s * t)"
  define dl :: real where "dl = 1 / 2 ^ 1075"
  have sf: "scaleFactor' (Interpolator n m d) = s"
    using assms(1) by (simp add: Interpolator_scaleFactor s_def a_def b_def)
  have k: "k = \<lfloor>u\<rfloor>" by (simp add: k_def sf u_def Math_floor_def)
  have a: "1 \<le> a" "a \<le> 2 ^ 50" using assms(2,3) by (simp_all add: a_def)
  have b: "1 \<le> b" "b \<le> 2 ^ 50" using assms(4,5) by (simp_all add: b_def)
  have "1 / 2 ^ 50 \<le> 1 / b" using b by (simp add: field_simps)
  also have "\<dots> \<le> s" using a b by (simp add: s_def divide_right_mono)
  finally have s50: "1 / 2 ^ 50 \<le> s" .
  have "(1::real) / 2 ^ 1022 \<le> 1 / 2 ^ 50" by simp
  then have s: "1 / 2 ^ 1022 \<le> s" using s50 by linarith
  have "(0::real) \<le> 1 / 2 ^ 50" by simp
  then have s0: "0 \<le> s" using s50 by linarith
  have "0 \<le> double s" using s0 by (rule double_nonneg)
  then have "0 \<le> double s * t" using assms(6) by simp
  then have "0 \<le> u" unfolding u_def by (rule double_nonneg)
  then show "0 \<le> k" by (simp add: k)
  have err: "u \<le> s * t + s * t / 2 ^ 51 + dl"
    using scaled_error [OF s assms(6)] unfolding u_def dl_def by linarith
  have dl: "dl < 1 / 2 ^ 51" by (simp add: dl_def)
  {
    assume t: "t < of_int m"
    have "s * t \<le> s * b" using t s0 by (simp add: b_def mult_left_mono)
    also have "\<dots> = a" using b by (simp add: s_def)
    finally have st: "s * t \<le> a" .
    then have "s * t / 2 ^ 51 \<le> a / 2 ^ 51" by (simp add: divide_right_mono)
    also have "\<dots> \<le> 1 / 2" using a by simp
    finally have h: "s * t / 2 ^ 51 \<le> 1 / 2" .
    have "(1::real) / 2 ^ 51 < 1 / 2" by simp
    then have "u < a + 1" using err st dl h by linarith
    then have "u < of_int n" by (simp add: a_def)
    then show "k < n" by (simp add: k floor_less_iff)
  }
  {
    assume t: "t \<le> of_int m - 1"
    have "s * t \<le> s * (b - 1)" using t s0 by (simp add: b_def mult_left_mono)
    also have "\<dots> = a - s" using b by (simp add: s_def field_simps)
    finally have st: "s * t \<le> a - s" .
    have "s * t \<le> a" using st s0 by linarith
    then have "s * t / 2 ^ 51 \<le> a / 2 ^ 51" by (simp add: divide_right_mono)
    moreover have "a / 2 ^ 50 \<le> s"
      using a b by (simp add: s_def field_simps)
    moreover have "a / 2 ^ 50 = a / 2 ^ 51 + a / 2 ^ 51" by simp
    moreover have "1 / 2 ^ 51 \<le> a / 2 ^ 51" using a by (simp add: divide_right_mono)
    ultimately have "u < a" using err st dl by linarith
    then have "u < of_int (n - 1)" by (simp add: a_def)
    then have "\<lfloor>u\<rfloor> < n - 1" by (simp only: floor_less_iff)
    then show "k + 1 < n" by (simp add: k)
  }
qed

lemma double_fifth: "double (1 / 5) = 7205759403792794 / 2 ^ 55"
proof -
  have "double (1 / 5) = of_int 7205759403792794 * (1 / 2 ^ 55)"
    by (rule double_eqI [where e = "- 3"]) (simp_all add: powr_minus_divide)
  then show ?thesis by simp
qed

lemma double_below_three:
  "double (7205759403792794 / 2 ^ 55 * (15 - 1 / 2 ^ 49)) = 3"
proof -
  have "double (7205759403792794 / 2 ^ 55 * (15 - 1 / 2 ^ 49)) =
      of_int 6755399441055744 * (1 / 2 ^ 51)"
    by (rule double_eqI [where e = 1]) (simp_all add: powr_minus_divide)
  then show ?thesis by simp
qed

lemma double_below_fifteen: "double (15 - 1 / 2 ^ 49) = 15 - 1 / 2 ^ 49"
proof -
  have "double (15 - 1 / 2 ^ 49) = of_int 8444249301319679 * (1 / 2 ^ 49)"
    by (rule double_eqI [where e = 3]) (simp_all add: powr_minus_divide)
  then show ?thesis by simp
qed

lemma double_eight: "double 8 = 8"
proof -
  have "double 8 = of_int 4503599627370496 * (1 / 2 ^ 49)"
    by (rule double_eqI [where e = 3]) (simp_all add: powr_minus_divide)
  then show ?thesis by simp
qed

lemma linear_method_at:
  assumes "double (double (scaleFactor' this) * t) = of_int k"
  shows "linear_method this t samples =
           dadd (dmul (Some 1) (getClippedInput' this k samples))
                (dmul (Some 0) (getClippedInput' this (k + 1) samples))"
  unfolding linear_method_def Let_def assms
  by (simp add: Math_floor_def double_zero double_one)

text \<open>
  Claim C10 says that for the linear method with the clamp policy, \<open>sourceLength \<ge> 2\<close> and
  every real \<open>t\<close> with \<open>0 \<le> t < targetLength\<close> both indices \<open>k\<close> and \<open>k + 1\<close> lie in
  \<open>[0, sourceLength)\<close>, so that the clip function is never called. With the lengths 4 and
  15 and \<open>t = 15 - 2\<^sup>-\<^sup>4\<^sup>9\<close>, the double \<^verbatim>\<open>14.999999999999998\<close>, the scale factor is
  the double next to \<open>1 / 5\<close> and its product with \<open>t\<close> rounds to 3: \<open>k + 1 = 4\<close> is the
  length, and the fetch of \<open>k + 1\<close> calls the clip function, which gives the last
  index 3. On the buffer \<open>[1, 2, 4, 8]\<close> the result is 8.
\<close>

theorem linear_clip_counterexample:
  "(0::real) \<le> 15 - 1 / 2 ^ 49 \<and> (15 - 1 / 2 ^ 49 :: real) < 15 \<and>
   double (15 - 1 / 2 ^ 49) = 15 - 1 / 2 ^ 49 \<and>
   Math_floor (double (double (scaleFactor'
       (Interpolator 4 15 (no_details\<lparr>method_name := Some ''linear'', clip := Some ''clamp''\<rparr>)))
     * (15 - 1 / 2 ^ 49))) + 1 =
   length' (Interpolator 4 15 (no_details\<lparr>method_name := Some ''linear'', clip := Some ''clamp''\<rparr>)) \<and>
   getClippedInput'
     (Interpolator 4 15 (no_details\<lparr>method_name := Some ''linear'', clip := Some ''clamp''\<rparr>))
     (3 + 1) [1, 2, 4, 8] = element [1, 2, 4, 8] (clipClamp' 4 4) \<and>
   call_interpolate
     (Interpolator 4 15 (no_details\<lparr>method_name := Some ''linear'', clip := Some ''clamp''\<rparr>))
     (15 - 1 / 2 ^ 49) [1, 2, 4, 8] = Some 8"
proof -
  let ?d = "no_details\<lparr>method_name := Some ''linear'', clip := Some ''clamp''\<rparr>"
  let ?ip = "Interpolator 4 15 ?d"
  let ?t = "15 - 1 / 2 ^ 49 :: real"
  let ?s = "[1, 2, 4, 8] :: real list"
  have sf: "scaleFactor' ?ip = 1 / 5"
    by (simp add: Interpolator_scaleFactor no_details_def)
  have u: "double (double (scaleFactor' ?ip) * ?t) = of_int 3"
    unfolding sf double_fifth double_below_three by simp
  have len: "length' ?ip = 4" by (simp add: Interpolator_length)
  have cl: "clip' ?ip = clipClamp'" by (simp add: Interpolator_clip no_details_def)
  have li: "interpolate ?ip = Linear" by (simp add: Interpolator_interpolate no_details_def)
  have k: "Math_floor (double (double (scaleFactor' ?ip) * ?t)) + 1 = length' ?ip"
    unfolding u len by (simp add: Math_floor_def)
  have f3: "getClippedInput' ?ip 3 ?s = Some 8"
    by (simp add: getClippedInput'_def len element_def)
  have c4: "getClippedInput' ?ip (3 + 1) ?s = element ?s (clipClamp' 4 4)"
    by (simp add: getClippedInput'_def len cl)
  have f4: "getClippedInput' ?ip (3 + 1) ?s = Some 8"
    unfolding c4 by (simp add: clipClamp'_def element_def)
  have "linear_method ?ip ?t ?s = dadd (dmul (Some 1) (Some 8)) (dmul (Some 0) (Some 8))"
    using linear_method_at [OF u, of ?s] unfolding f3 f4 .
  also have "\<dots> = Some 8"
    by (simp add: dadd_def dmul_def double_zero double_eight)
  finally have r1: "call_interpolate ?ip ?t ?s = Some 8"
    by (simp add: call_interpolate_def li)
  have "(0::real) \<le> 15 - 1 / 2 ^ 49" "(15 - 1 / 2 ^ 49 :: real) < 15" by simp_all
  then show ?thesis using k c4 r1 double_below_fifteen by blast
qed

text \<open>
  Claim C10 as amended. For the linear method with the clamp policy and lengths
  \<open>2 \<le> sourceLength \<le> 2\<^sup>5\<^sup>0\<close>, \<open>1 \<le> targetLength \<le> 2\<^sup>5\<^sup>0\<close>: for every \<open>t\<close> with
  \<open>0 \<le> t < targetLength\<close> the index \<open>k\<close> lies in \<open>[0, sourceLength)\<close> and \<open>k + 1\<close> in
  \<open>[1, sourceLength]\<close>, so that the fetch of \<open>k\<close> reads the buffer directly; and for every
  \<open>t\<close> with \<open>0 \<le> t \<le> targetLength - 1\<close>, which every integer output index is, \<open>k + 1\<close>
  lies in \<open>[0, sourceLength)\<close> too, both fetches read the buffer directly, and the result
  is the same whatever clip function \<open>c\<close> the instance holds, since none is called.
\<close>

theorem linear_clip_bounds:
  assumes "method_name d = Some ''linear''" and "clip d = Some ''clamp''"
    and "2 \<le> sourceLength" and "sourceLength \<le> 2 ^ 50"
    and "1 \<le> targetLength" and "targetLength \<le> 2 ^ 50"
    and "0 \<le> t" and "t < of_int targetLength"
  shows "let this = Interpolator sourceLength targetLength d;
             k = Math_floor (double (double (scaleFactor' this) * t))
         in (0 \<le> k \<and> k < length' this) \<and> (0 \<le> k + 1 \<and> k + 1 \<le> length' this) \<and>
            getClippedInput' this k samples = element samples (Some k) \<and>
            (t \<le> of_int targetLength - 1 \<longrightarrow>
               k + 1 < length' this \<and>
               getClippedInput' this (k + 1) samples = element samples (Some (k + 1)) \<and>
               call_interpolate (this\<lparr>clip' := c\<rparr>) t samples =
                 call_interpolate this t samples)"
proof -
  let ?ip = "Interpolator sourceLength targetLength d"
  let ?k = "Math_floor (double (double (scaleFactor' ?ip) * t))"
  have p: "clip d \<noteq> Some ''periodic''" using assms(2) by simp
  have len: "length' ?ip = sourceLength" by (rule Interpolator_length)
  have k0: "0 \<le> ?k" using linear_index_bounds(1) [OF p assms(3-7)] .
  have k1: "?k < sourceLength" using linear_index_bounds(2) [OF p assms(3-7) assms(8)] .
  have f0: "getClippedInput' ?ip ?k samples = element samples (Some ?k)"
    using k0 k1 by (intro getClippedInput_in_range) (simp_all add: len)
  have li: "interpolate ?ip = Linear"
    using assms(1) by (simp add: Interpolator_interpolate)
  have last: "?k + 1 < length' ?ip \<and>
      getClippedInput' ?ip (?k + 1) samples = element samples (Some (?k + 1)) \<and>
      call_interpolate (?ip\<lparr>clip' := c\<rparr>) t samples = call_interpolate ?ip t samples"
    if t: "t \<le> of_int targetLength - 1"
  proof -
    have k2: "?k + 1 < sourceLength" using linear_index_bounds(3) [OF p assms(3-7) t] .
    have f1: "getClippedInput' ?ip (?k + 1) samples = element samples (Some (?k + 1))"
      using k0 k2 by (intro getClippedInput_in_range) (simp_all add: len)
    have "linear_method (?ip\<lparr>clip' := c\<rparr>) t samples = linear_method ?ip t samples"
      using k0 k1 k2 by (simp add: linear_method_def getClippedInput'_def Let_def len)
    then have "call_interpolate (?ip\<lparr>clip' := c\<rparr>) t samples = call_interpolate ?ip t samples"
      using li by (simp add: call_interpolate_def)
    then show ?thesis using k2 f1 by (simp add: len)
  qed
  show ?thesis
    unfolding Let_def using k0 k1 f0 last by (simp add: len)
qed

lemma double_two_fifths: "double (2 / 5) = 7205759403792794 / 2 ^ 54"
proof -
  have "double (2 / 5) = of_int 7205759403792794 * (1 / 2 ^ 54)"
    by (rule double_eqI [where e = "- 2"]) (simp_all add: powr_minus_divide)
  then show ?thesis by simp
qed

lemma double_near_18_fifths:
  "double (7205759403792794 / 2 ^ 54 * 9) = 8106479329266893 / 2 ^ 51"
proof -
  have "double (7205759403792794 / 2 ^ 54 * 9) = of_int 8106479329266893 * (1 / 2 ^ 51)"
    by (rule double_eqI [where e = 1]) (simp_all add: powr_minus_divide)
  then show ?thesis by simp
qed

text \<open>
  The theorem of C10 at the lengths 5 and 10 and the last output index \<open>t = 9\<close>: the
  product rounds to a double just below \<open>18 / 5\<close>, \<open>k\<close> is 3 and \<open>k + 1\<close> the last index 4.
\<close>

theorem linear_clip_bounds_witness:
  "Math_floor (double (double (scaleFactor'
       (Interpolator 5 10 (no_details\<lparr>method_name := Some ''linear'', clip := Some ''clamp''\<rparr>)))
     * 9)) = 3 \<and>
   getClippedInput'
     (Interpolator 5 10 (no_details\<lparr>method_name := Some ''linear'', clip := Some ''clamp''\<rparr>))
     (3 + 1) [0, 10, 0, 10, 0] = element [0, 10, 0, 10, 0] (Some (3 + 1)) \<and>
   call_interpolate
     ((Interpolator 5 10 (no_details\<lparr>method_name := Some ''linear'', clip := Some ''clamp''\<rparr>))
        \<lparr>clip' := clipMirror'\<rparr>) 9 [0, 10, 0, 10, 0] =
   call_interpolate
     (Interpolator 5 10 (no_details\<lparr>method_name := Some ''linear'', clip := Some ''clamp''\<rparr>))
     9 [0, 10, 0, 10, 0]"
proof -
  let ?d = "no_details\<lparr>method_name := Some ''linear'', clip := Some ''clamp''\<rparr>"
  let ?ip = "Interpolator 5 10 ?d"
  have sf: "scaleFactor' ?ip = 2 / 5"
    by (simp add: Interpolator_scaleFactor no_details_def)
  have u: "double (double (scaleFactor' ?ip) * 9) = 8106479329266893 / 2 ^ 51"
    unfolding sf double_two_fifths by (rule double_near_18_fifths)
  have "\<lfloor>8106479329266893 / 2 ^ 51 :: real\<rfloor> = 3"
    by (rule floor_unique) simp_all
  then have k: "Math_floor (double (double (scaleFactor' ?ip) * 9)) = 3"
    unfolding u Math_floor_def .
  have h: "method_name ?d = Some ''linear''" "clip ?d = Some ''clamp''"
    "(2::int) \<le> 5" "(5::int) \<le> 2 ^ 50" "(1::int) \<le> 10" "(10::int) \<le> 2 ^ 50"
    "(0::real) \<le> 9" "(9::real) < of_int 10" "(9::real) \<le> of_int 10 - 1"
    by simp_all
  show ?thesis
    using linear_clip_bounds [OF h(1-8), of "[0, 10, 0, 10, 0]" clipMirror'] h(9)
    unfolding Let_def k by simp
qed

subsection \<open>The fallback to the sinc method\<close>

lemma Interpolator_kernel:
  "kernel' (Interpolator scaleFrom scaleTo d) =
     (if method_name d = Some ''lanczos'' then sincKernel' (lanczosWindow' (lanczosFilterSize d))
      else sincKernel' (case sincWindow d of None \<Rightarrow> gaussianWindow' | Some w \<Rightarrow> w))"
  by (simp add: Interpolator_def Let_def split: prod.splits)

lemma Interpolator_sincFilterSize:
  "sincFilterSize' (Interpolator scaleFrom scaleTo d) = or_default (sincFilterSize d) 1"
  by (simp add: Interpolator_def Let_def split: prod.splits)

lemma Interpolator_method_irrelevant:
  assumes "method_name d \<notin> {Some ''point'', Some ''linear'', Some ''cubic'', Some ''lanczos''}"
    and "m \<notin> {Some ''point'', Some ''linear'', Some ''cubic'', Some ''lanczos''}"
  shows "Interpolator scaleFrom scaleTo (d\<lparr>method_name := m\<rparr>) = Interpolator scaleFrom scaleTo d"
  using assms by (simp add: Interpolator_def Let_def)

text \<open>
  Claim C6. When \<^verbatim>\<open>details.method\<close> is none of \<^verbatim>\<open>'point'\<close>, \<^verbatim>\<open>'linear'\<close>,
  \<^verbatim>\<open>'cubic'\<close>, \<^verbatim>\<open>'lanczos'\<close> (or is absent) and \<^verbatim>\<open>details.clip\<close> is neither
  \<^verbatim>\<open>'periodic'\<close> nor \<^verbatim>\<open>'mirror'\<close>, the constructor selects the sinc method and the
  clamp function, the kernel is the sinc kernel with the Gaussian window when no window
  is given, and the filter size is 1 when none is given; the result of the interpolation
  is the one for \<^verbatim>\<open>method: 'sinc'\<close>, for every \<open>t\<close> and every buffer.
\<close>

theorem unknown_method_fallback:
  assumes "method_name d \<notin> {Some ''point'', Some ''linear'', Some ''cubic'', Some ''lanczos''}"
    and "clip d \<notin> {Some ''periodic'', Some ''mirror''}"
    and "1 \<le> scaleTo"
  shows "interpolate (Interpolator scaleFrom scaleTo d) = Sinc \<and>
         clip' (Interpolator scaleFrom scaleTo d) = clipClamp' \<and>
         (sincWindow d = None \<longrightarrow>
            kernel' (Interpolator scaleFrom scaleTo d) = sincKernel' gaussianWindow') \<and>
         (sincFilterSize d = None \<longrightarrow> sincFilterSize' (Interpolator scaleFrom scaleTo d) = 1) \<and>
         call_interpolate (Interpolator scaleFrom scaleTo d) t samples =
           call_interpolate (Interpolator scaleFrom scaleTo (d\<lparr>method_name := Some ''sinc''\<rparr>)) t samples"
proof -
  have "Interpolator scaleFrom scaleTo (d\<lparr>method_name := Some ''sinc''\<rparr>) = Interpolator scaleFrom scaleTo d"
    using assms(1) by (intro Interpolator_method_irrelevant) simp_all
  then show ?thesis
    using assms
    by (simp add: Interpolator_interpolate Interpolator_clip Interpolator_kernel
        Interpolator_sincFilterSize or_default_def)
qed

text \<open>The theorem of C6 for \<^verbatim>\<open>{method: 'unknown'}\<close> at the lengths 5 and 10.\<close>

theorem unknown_method_fallback_witness:
  "interpolate (Interpolator 5 10 (no_details\<lparr>method_name := Some ''unknown''\<rparr>)) = Sinc \<and>
   clip' (Interpolator 5 10 (no_details\<lparr>method_name := Some ''unknown''\<rparr>)) = clipClamp' \<and>
   kernel' (Interpolator 5 10 (no_details\<lparr>method_name := Some ''unknown''\<rparr>)) = sincKernel' gaussianWindow' \<and>
   sincFilterSize' (Interpolator 5 10 (no_details\<lparr>method_name := Some ''unknown''\<rparr>)) = 1 \<and>
   call_interpolate (Interpolator 5 10 (no_details\<lparr>method_name := Some ''unknown''\<rparr>)) 3 [0, 10, 0, 10, 0] =
     call_interpolate (Interpolator 5 10 (no_details\<lparr>method_name := Some ''sinc''\<rparr>)) 3 [0, 10, 0, 10, 0]"
  using unknown_method_fallback [of "no_details\<lparr>method_name := Some ''unknown''\<rparr>" 10 5 3 "[0, 10, 0, 10, 0]"]
  by (simp add: no_details_def)


subsection \<open>The sinc method\<close>

text \<open>
  The loop counting upwards adds the products for \<open>j, \<dots>, ref1\<close> to the accumulator, and
  is \<^verbatim>\<open>NaN\<close> when the accumulator or a product is.
\<close>

lemma sinc_loop_up:
  assumes "ref \<le> ref1"
  shows "sinc_loop this u samples ref ref1 j acc =
     (if \<forall>n\<in>{j..ref1}. nmul (kernel' this (u - of_int n)) (getClippedInput' this n samples) \<noteq> None
      then (case acc of None \<Rightarrow> None
            | Some a \<Rightarrow> Some (a + (\<Sum>n\<in>{j..ref1}.
                the (nmul (kernel' this (u - of_int n)) (getClippedInput' this n samples)))))
      else None)"
  using assms
proof (induction this u samples ref ref1 j acc rule: sinc_loop.induct)
  case (1 this t samples ref ref1 j acc)
  let ?p = "\<lambda>n. nmul (kernel' this (t - of_int n)) (getClippedInput' this n samples)"
  show ?case
  proof (cases "j \<le> ref1")
    case False
    then show ?thesis using "1.prems"
      by (subst sinc_loop.simps) (simp split: option.splits)
  next
    case True
    have set: "{j..ref1} = insert j {j + 1..ref1}" using True by auto
    have IH: "sinc_loop this t samples ref ref1 (j + 1) (nadd acc (?p j)) =
       (if \<forall>n\<in>{j + 1..ref1}. ?p n \<noteq> None
        then (case nadd acc (?p j) of None \<Rightarrow> None
            | Some a \<Rightarrow> Some (a + (\<Sum>n\<in>{j + 1..ref1}. the (?p n))))
        else None)"
    proof -
      have c: "if ref \<le> ref1 then j \<le> ref1 else j \<ge> ref1" using True "1.prems" by simp
      have nx: "(if ref \<le> ref1 then j + 1 else j - 1) = j + 1" using "1.prems" by simp
      show ?thesis using "1.IH" [OF c "1.prems"] unfolding nx .
    qed
    have step: "sinc_loop this t samples ref ref1 j acc =
        sinc_loop this t samples ref ref1 (j + 1) (nadd acc (?p j))"
      using True "1.prems" by (subst sinc_loop.simps) simp
    show ?thesis
      unfolding step IH set
      by (cases acc; cases "?p j") (simp_all add: nadd_def add.assoc)
  qed
qed

lemma sinc_eq_sum:
  assumes "1 \<le> sincFilterSize' this"
  shows "sinc this t samples =
     windowed_sinc_sum (kernel' this) (\<lambda>n. getClippedInput' this n samples)
       (scaleFactor' this * t) (sincFilterSize' this)"
proof -
  have "\<lfloor>scaleFactor' this * t\<rfloor> - sincFilterSize' this + 1
        \<le> \<lfloor>scaleFactor' this * t\<rfloor> + sincFilterSize' this"
    using assms by simp
  then show ?thesis
    by (simp add: sinc_def windowed_sinc_sum_def Let_def Math_floor_def sinc_loop_up)
qed

lemma int_interval_0_1: "{0..1::int} = {0, 1}"
  by auto

text \<open>
  For every method that selects the sinc kernel without the Lanczos window and a filter
  size of at least 1, the result is the sum of the specification.
\<close>

lemma sinc_sum_without_lanczos:
  assumes "method_name d \<notin> {Some ''point'', Some ''linear'', Some ''cubic'', Some ''lanczos''}"
    and "1 \<le> scaleTo"
    and "1 \<le> or_default (sincFilterSize d) 1"
  shows "call_interpolate (Interpolator scaleFrom scaleTo d) t samples =
           windowed_sinc_sum
             (sincKernel' (case sincWindow d of None \<Rightarrow> gaussianWindow' | Some w \<Rightarrow> w))
             (\<lambda>n. getClippedInput' (Interpolator scaleFrom scaleTo d) n samples)
             (scaleFactor' (Interpolator scaleFrom scaleTo d) * t)
             (or_default (sincFilterSize d) 1)"
proof -
  have "interpolate (Interpolator scaleFrom scaleTo d) = Sinc"
    using assms(1) by (simp add: Interpolator_interpolate)
  then have "call_interpolate (Interpolator scaleFrom scaleTo d) t samples =
      sinc (Interpolator scaleFrom scaleTo d) t samples"
    by (simp add: call_interpolate_def)
  moreover have "1 \<le> sincFilterSize' (Interpolator scaleFrom scaleTo d)"
    using assms(3) by (simp add: Interpolator_sincFilterSize)
  ultimately show ?thesis
    using assms(1) by (simp add: sinc_eq_sum Interpolator_kernel Interpolator_sincFilterSize)
qed

subsection \<open>The cubic method\<close>

lemma hermite_numbers:
  "nadd (nadd (nadd (nmul (Some (2 * (f * (f * f)) - 3 * (f * f) + 1)) (Some p0))
                    (nmul (Some (f * (f * f) - 2 * (f * f) + f))
                       (half (nmul (Some tf) (nsub (Some p1) (Some pm))))))
              (nmul (Some (- 2 * (f * (f * f)) + 3 * (f * f))) (Some p1)))
        (nmul (Some (f * (f * f) - f * f)) (half (nmul (Some tf) (nsub (Some p2) (Some p0)))))
   = Some ((2 * f ^ 3 - 3 * f ^ 2 + 1) * p0 +
           (f ^ 3 - 2 * f ^ 2 + f) * (tf * (p1 - pm) / 2) +
           (- 2 * f ^ 3 + 3 * f ^ 2) * p1 +
           (f ^ 3 - f ^ 2) * (tf * (p2 - p0) / 2))"
  by (simp add: nadd_def nsub_def nmul_def half_def power2_eq_square power3_eq_cube mult.assoc)

lemma nan_operand:
  "nmul x None = None" "nmul None y = None" "nadd x None = None" "nadd None y = None"
  "nsub x None = None" "nsub None y = None" "half None = None"
  by (cases x; cases y; simp add: nadd_def nsub_def nmul_def half_def)+

lemma cubic_eq:
  "cubic this t samples =
     (let u = scaleFactor' this * t;
          k = Math_floor u;
          f = u - of_int k;
          fetch = (\<lambda>n. getClippedInput' this n samples)
      in case (fetch (k - 1), fetch k, fetch (k + 1), fetch (k + 2)) of
           (Some pm, Some p0, Some p1, Some p2) \<Rightarrow>
             Some ((2 * f ^ 3 - 3 * f ^ 2 + 1) * p0 +
                   (f ^ 3 - 2 * f ^ 2 + f) * (tangentFactor' this * (p1 - pm) / 2) +
                   (- 2 * f ^ 3 + 3 * f ^ 2) * p1 +
                   (f ^ 3 - f ^ 2) * (tangentFactor' this * (p2 - p0) / 2))
         | _ \<Rightarrow> None)"
proof -
  let ?k = "Math_floor (scaleFactor' this * t)"
  have k: "?k + 1 + 1 = ?k + 2" "?k + 1 - 1 = ?k" by simp_all
  show ?thesis
    unfolding cubic_def getTangent'_def Let_def k
    by (cases "getClippedInput' this (?k - 1) samples";
        cases "getClippedInput' this ?k samples";
        cases "getClippedInput' this (?k + 1) samples";
        cases "getClippedInput' this (?k + 2) samples")
       (simp_all only: hermite_numbers nan_operand prod.case option.case)
qed

lemma Interpolator_tangentFactor:
  "tangentFactor' (Interpolator scaleFrom scaleTo d) =
     1 - max 0 (min 1 (or_default (tension d) 0))"
  by (simp add: Interpolator_def Let_def split: prod.splits)

text \<open>
  Claim C8. For the cubic method, for every \<open>t\<close> and buffer, with \<open>u = scaleFactor * t\<close>,
  \<open>k\<close> the floor of \<open>u\<close> and \<open>f = u - k\<close>, the result is
  \<open>h00 * fetch k + h10 * m0 + h01 * fetch (k + 1) + h11 * m1\<close> with the tangents
  \<open>m0 = tangentFactor * (fetch (k + 1) - fetch (k - 1)) / 2\<close> and
  \<open>m1 = tangentFactor * (fetch (k + 2) - fetch k) / 2\<close> and the Hermite basis
  \<open>h00 = 2f\<^sup>3 - 3f\<^sup>2 + 1\<close>, \<open>h10 = f\<^sup>3 - 2f\<^sup>2 + f\<close>, \<open>h01 = -2f\<^sup>3 + 3f\<^sup>2\<close>,
  \<open>h11 = f\<^sup>3 - f\<^sup>2\<close>; it is \<^verbatim>\<open>NaN\<close> when one of the four fetches is undefined.
\<close>

theorem cubic_hermite:
  assumes "method_name d = Some ''cubic''" and "1 \<le> scaleTo"
  shows "call_interpolate (Interpolator scaleFrom scaleTo d) t samples =
     (let this = Interpolator scaleFrom scaleTo d;
          u = scaleFactor' this * t;
          k = Math_floor u;
          f = u - of_int k;
          fetch = (\<lambda>n. getClippedInput' this n samples)
      in case (fetch (k - 1), fetch k, fetch (k + 1), fetch (k + 2)) of
           (Some pm, Some p0, Some p1, Some p2) \<Rightarrow>
             Some ((2 * f ^ 3 - 3 * f ^ 2 + 1) * p0 +
                   (f ^ 3 - 2 * f ^ 2 + f) * (tangentFactor' this * (p1 - pm) / 2) +
                   (- 2 * f ^ 3 + 3 * f ^ 2) * p1 +
                   (f ^ 3 - f ^ 2) * (tangentFactor' this * (p2 - p0) / 2))
         | _ \<Rightarrow> None)"
proof -
  have "interpolate (Interpolator scaleFrom scaleTo d) = Cubic"
    using assms(1) by (simp add: Interpolator_interpolate)
  then have "call_interpolate (Interpolator scaleFrom scaleTo d) t samples =
      cubic (Interpolator scaleFrom scaleTo d) t samples"
    by (simp add: call_interpolate_def)
  then show ?thesis
    by (simp only: cubic_eq Let_def)
qed

text \<open>
  The theorem of C8 at the lengths 5 and 10, \<open>t = 5 / 4\<close> and the buffer
  \<open>[1, 2, 4, 8, 16]\<close>: \<open>u = 1 / 2\<close>, \<open>k = 0\<close>, the fetch at \<open>-1\<close> is clamped to
  \<open>samples[0]\<close>, and the result is \<open>11 / 8\<close>.
\<close>

theorem cubic_hermite_witness:
  "call_interpolate (Interpolator 5 10 (no_details\<lparr>method_name := Some ''cubic''\<rparr>)) (5 / 4)
     [1, 2, 4, 8, 16] = Some (11 / 8)"
  using cubic_hermite [of "no_details\<lparr>method_name := Some ''cubic''\<rparr>" 10 5 "5 / 4" "[1, 2, 4, 8, 16]"]
  by (simp add: no_details_def Interpolator_scaleFactor Interpolator_length Interpolator_clip
      Interpolator_tangentFactor or_default_def Math_floor_def
      getClippedInput'_def element_def clipClamp'_def Let_def power2_eq_square power3_eq_cube)

subsection \<open>The Lanczos filter size\<close>

lemma sinc_half: "sinc' (1 / 2) = 2 / pi"
  by (simp add: sinc'_def)

lemma sinc_three_halves: "sinc' (3 / 2) = - 2 / (3 * pi)"
proof -
  have "sin (pi * (3 / 2)) = - 1"
    using sin_3over2_pi by (simp add: mult.commute)
  then show ?thesis by (simp add: sinc'_def)
qed

lemma sinc_minus: "sinc' (- x) = sinc' x"
  by (simp add: sinc'_def)

lemma lanczos_kernel_value:
  "sincKernel' (lanczosWindow' (Some 3)) (- 3 / 2) = Some (- 4 / (3 * pi ^ 2))"
proof -
  have "sinc' (- 3 / 2) = - 2 / (3 * pi)"
    using sinc_minus [of "3 / 2"] sinc_three_halves by simp
  moreover have "sinc' (- 3 / 2 / 3) = 2 / pi"
    using sinc_minus [of "1 / 2"] sinc_half by simp
  ultimately show ?thesis
    by (simp add: sincKernel'_def lanczosWindow'_def nmul_def power2_eq_square)
qed

lemma lanczos_kernel_defined:
  "sincKernel' (lanczosWindow' (Some 3)) x = Some (sinc' x * sinc' (x / 3))"
  by (simp add: sincKernel'_def lanczosWindow'_def nmul_def)

lemma int_interval_m2_3: "{- 2..3::int} = {- 2, - 1, 0, 1, 2, 3}"
  by auto

text \<open>
  Claim C1 says that for \<^verbatim>\<open>method: 'lanczos'\<close> the filter size of the sinc sum is set
  to \<^verbatim>\<open>lanczosFilterSize\<close>. The constructor assigns it to the property
  \<^verbatim>\<open>sincFilterSize\<close>, which the method \<^verbatim>\<open>sinc\<close> never reads; the field
  \<^verbatim>\<open>sincFilterSize_\<close> that it reads keeps its value. With
  \<^verbatim>\<open>{method: 'lanczos', lanczosFilterSize: 3}\<close>, the lengths 5 and 8, \<open>t = 1\<close> and the
  buffer \<open>[0, 0, 1, 0, 0]\<close>: the field is 1, the result is the sum over \<open>n = 0, 1\<close>, which
  is 0, and the sum of the claim over \<open>n = -2, \<dots>, 3\<close> is \<open>- 4 / (3 * pi\<^sup>2)\<close>.
\<close>

theorem lanczos_filter_size_unset:
  "sincFilterSize'
     (Interpolator 5 8 (no_details\<lparr>method_name := Some ''lanczos'', lanczosFilterSize := Some 3\<rparr>)) = 1 \<and>
   this_sincFilterSize
     (Interpolator 5 8 (no_details\<lparr>method_name := Some ''lanczos'', lanczosFilterSize := Some 3\<rparr>)) = Some 3 \<and>
   call_interpolate
     (Interpolator 5 8 (no_details\<lparr>method_name := Some ''lanczos'', lanczosFilterSize := Some 3\<rparr>))
     1 [0, 0, 1, 0, 0] = Some 0 \<and>
   windowed_sinc_sum
     (kernel' (Interpolator 5 8 (no_details\<lparr>method_name := Some ''lanczos'', lanczosFilterSize := Some 3\<rparr>)))
     (\<lambda>n. getClippedInput'
        (Interpolator 5 8 (no_details\<lparr>method_name := Some ''lanczos'', lanczosFilterSize := Some 3\<rparr>))
        n [0, 0, 1, 0, 0])
     (scaleFactor'
        (Interpolator 5 8 (no_details\<lparr>method_name := Some ''lanczos'', lanczosFilterSize := Some 3\<rparr>)) * 1)
     3 = Some (- 4 / (3 * pi ^ 2))"
proof -
  let ?d = "no_details\<lparr>method_name := Some ''lanczos'', lanczosFilterSize := Some 3\<rparr>"
  let ?ip = "Interpolator 5 8 ?d"
  let ?s = "[0, 0, 1, 0, 0] :: real list"
  have fs: "sincFilterSize' ?ip = 1"
    by (simp add: Interpolator_sincFilterSize or_default_def no_details_def)
  have pub: "this_sincFilterSize ?ip = Some 3"
    by (simp add: Interpolator_def Let_def no_details_def)
  have kern: "kernel' ?ip = sincKernel' (lanczosWindow' (Some 3))"
    by (simp add: Interpolator_kernel no_details_def)
  have sf: "scaleFactor' ?ip = 1 / 2"
    by (simp add: Interpolator_scaleFactor no_details_def)
  have fetch: "getClippedInput' ?ip (- 2) ?s = Some 0" "getClippedInput' ?ip (- 1) ?s = Some 0"
    "getClippedInput' ?ip 0 ?s = Some 0" "getClippedInput' ?ip 1 ?s = Some 0"
    "getClippedInput' ?ip 2 ?s = Some 1" "getClippedInput' ?ip 3 ?s = Some 0"
    by (simp_all add: getClippedInput'_def Interpolator_length Interpolator_clip no_details_def
        clipClamp'_def element_def)
  have interp: "interpolate ?ip = Sinc"
    by (simp add: Interpolator_interpolate no_details_def)
  have "sinc ?ip 1 ?s =
      windowed_sinc_sum (kernel' ?ip) (\<lambda>n. getClippedInput' ?ip n ?s) (scaleFactor' ?ip * 1) 1"
    using sinc_eq_sum [of ?ip 1 ?s] fs by simp
  also have "\<dots> = Some 0"
    unfolding kern sf
    by (simp add: windowed_sinc_sum_def Let_def int_interval_0_1 fetch lanczos_kernel_defined
        nmul_def)
  finally have code: "call_interpolate ?ip 1 ?s = Some 0"
    using interp by (simp add: call_interpolate_def)
  have spec: "windowed_sinc_sum (kernel' ?ip) (\<lambda>n. getClippedInput' ?ip n ?s)
      (scaleFactor' ?ip * 1) 3 = Some (- 4 / (3 * pi ^ 2))"
    unfolding kern sf
    using lanczos_kernel_value
    by (simp add: windowed_sinc_sum_def Let_def int_interval_m2_3 fetch lanczos_kernel_defined
        nmul_def)
  show ?thesis using fs pub code spec by simp
qed


text \<open>
  At this input the result of the code is not the sum that claim C1 describes.
\<close>

theorem lanczos_filter_size_unset_differs:
  "call_interpolate
     (Interpolator 5 8
        (no_details\<lparr>method_name := Some ''lanczos'', lanczosFilterSize := Some 3\<rparr>))
     1 [0, 0, 1, 0, 0] \<noteq>
   windowed_sinc_sum
     (kernel' (Interpolator 5 8
        (no_details\<lparr>method_name := Some ''lanczos'', lanczosFilterSize := Some 3\<rparr>)))
     (\<lambda>n. getClippedInput'
        (Interpolator 5 8
           (no_details\<lparr>method_name := Some ''lanczos'', lanczosFilterSize := Some 3\<rparr>))
        n [0, 0, 1, 0, 0])
     (scaleFactor'
        (Interpolator 5 8
           (no_details\<lparr>method_name := Some ''lanczos'', lanczosFilterSize := Some 3\<rparr>)) * 1)
     3"
  using lanczos_filter_size_unset by simp

subsection \<open>The sinc sum of the Lanczos method\<close>

lemma int_interval_1_2: "{1..2::int} = {1, 2}"
  by auto

lemma int_interval_m1_4: "{- 1..4::int} = {- 1, 0, 1, 2, 3, 4}"
  by auto

text \<open>
  Claim C7 says that for \<^verbatim>\<open>'sinc'\<close> and for \<^verbatim>\<open>'lanczos'\<close> the result is the sum of
  \<open>kernel (u - n) * fetch n\<close> over every integer \<open>n\<close> of \<open>[k - filterSize + 1, k + filterSize]\<close>,
  \<open>k\<close> the floor of \<open>u = scaleFactor * t\<close>, with the kernel \<open>sinc' x * window x\<close>. For
  \<^verbatim>\<open>'lanczos'\<close> the filter size is the size of the Lanczos window, which the constructor
  fails to store where \<^verbatim>\<open>sinc\<close> reads it (the defect of claim C1). With
  \<^verbatim>\<open>{method: 'lanczos', lanczosFilterSize: 3}\<close>, the lengths 5 and 8, \<open>t = 3\<close> and the
  buffer \<open>[0, 0, 0, 1, 0]\<close>: \<open>u = 3 / 2\<close>, \<open>k = 1\<close>, the code sums over \<open>n = 1, 2\<close> and
  returns 0, and the sum of the claim over \<open>n = -1, \<dots>, 4\<close> is \<open>- 4 / (3 * pi\<^sup>2)\<close>. For the
  methods that select the sinc kernel without the Lanczos window the code computes the
  sum of the claim (lemma \<open>sinc_sum_without_lanczos\<close>).
\<close>

theorem lanczos_sum_two_taps:
  "call_interpolate
     (Interpolator 5 8 (no_details\<lparr>method_name := Some ''lanczos'', lanczosFilterSize := Some 3\<rparr>))
     3 [0, 0, 0, 1, 0] = Some 0 \<and>
   windowed_sinc_sum (sincKernel' (lanczosWindow' (Some 3)))
     (\<lambda>n. getClippedInput'
        (Interpolator 5 8 (no_details\<lparr>method_name := Some ''lanczos'', lanczosFilterSize := Some 3\<rparr>))
        n [0, 0, 0, 1, 0])
     (scaleFactor'
        (Interpolator 5 8 (no_details\<lparr>method_name := Some ''lanczos'', lanczosFilterSize := Some 3\<rparr>)) * 3)
     3 = Some (- 4 / (3 * pi ^ 2))"
proof -
  let ?d = "no_details\<lparr>method_name := Some ''lanczos'', lanczosFilterSize := Some 3\<rparr>"
  let ?ip = "Interpolator 5 8 ?d"
  let ?s = "[0, 0, 0, 1, 0] :: real list"
  have fs: "sincFilterSize' ?ip = 1"
    by (simp add: Interpolator_sincFilterSize or_default_def no_details_def)
  have kern: "kernel' ?ip = sincKernel' (lanczosWindow' (Some 3))"
    by (simp add: Interpolator_kernel no_details_def)
  have sf: "scaleFactor' ?ip * 3 = 3 / 2"
    by (simp add: Interpolator_scaleFactor no_details_def)
  have fl: "\<lfloor>3 / 2 :: real\<rfloor> = 1" by (rule floor_unique) simp_all
  have fetch: "getClippedInput' ?ip (- 1) ?s = Some 0" "getClippedInput' ?ip 0 ?s = Some 0"
    "getClippedInput' ?ip 1 ?s = Some 0" "getClippedInput' ?ip 2 ?s = Some 0"
    "getClippedInput' ?ip 3 ?s = Some 1" "getClippedInput' ?ip 4 ?s = Some 0"
    by (simp_all add: getClippedInput'_def Interpolator_length Interpolator_clip no_details_def
        clipClamp'_def element_def)
  have interp: "interpolate ?ip = Sinc"
    by (simp add: Interpolator_interpolate no_details_def)
  have "sinc ?ip 3 ?s =
      windowed_sinc_sum (kernel' ?ip) (\<lambda>n. getClippedInput' ?ip n ?s) (scaleFactor' ?ip * 3) 1"
    using sinc_eq_sum [of ?ip 3 ?s] fs by simp
  also have "\<dots> = Some 0"
    unfolding kern sf
    by (simp add: windowed_sinc_sum_def Let_def fl int_interval_1_2 fetch lanczos_kernel_defined
        nmul_def)
  finally have code: "call_interpolate ?ip 3 ?s = Some 0"
    using interp by (simp add: call_interpolate_def)
  have spec: "windowed_sinc_sum (sincKernel' (lanczosWindow' (Some 3)))
      (\<lambda>n. getClippedInput' ?ip n ?s) (scaleFactor' ?ip * 3) 3 = Some (- 4 / (3 * pi ^ 2))"
    unfolding sf
    using lanczos_kernel_value
    by (simp add: windowed_sinc_sum_def Let_def fl int_interval_m1_4 fetch lanczos_kernel_defined
        nmul_def)
  show ?thesis using code spec by simp
qed

text \<open>
  At this input the result of the code is not the sum that claim C7 describes.
\<close>

theorem lanczos_sum_two_taps_differs:
  "call_interpolate
     (Interpolator 5 8 (no_details\<lparr>method_name := Some ''lanczos'', lanczosFilterSize := Some 3\<rparr>))
     3 [0, 0, 0, 1, 0] \<noteq>
   windowed_sinc_sum (sincKernel' (lanczosWindow' (Some 3)))
     (\<lambda>n. getClippedInput'
        (Interpolator 5 8 (no_details\<lparr>method_name := Some ''lanczos'', lanczosFilterSize := Some 3\<rparr>))
        n [0, 0, 0, 1, 0])
     (scaleFactor'
        (Interpolator 5 8 (no_details\<lparr>method_name := Some ''lanczos'', lanczosFilterSize := Some 3\<rparr>)) * 3)
     3"
  using lanczos_sum_two_taps by simp

end
